theory Spec2Isabelle
  imports Complex_Main "HOL-Library.Multiset"
begin

section \<open>Go strings and the functions of package strings that latex.go calls\<close>

text \<open>
  A Go string is modelled by the list of its Unicode code points (Go's \<open>rune\<close> is an
  alias of \<open>int32\<close>), which is what \<open>for _, char := range text\<close>, package
  \<open>unicode\<close> and package \<open>regexp\<close> see of a valid UTF-8 text. Every pattern and
  every key of the program is ASCII, so replacing and searching code point by code point
  agrees with Go's byte-wise work on UTF-8. Texts that are not valid UTF-8 are outside
  the model.
\<close>

type_synonym rune = int
type_synonym gostring = "rune list"

text \<open>ASCII literals of the source are written \<open>str ''...''\<close>; the backslash and the
  line feed cannot stand in such a literal and get names.\<close>

definition str :: "string \<Rightarrow> gostring" where
  "str s = map of_char s"

definition backslash :: rune where
  "backslash = 92"

definition linefeed :: rune where
  "linefeed = 10"

fun strings_HasPrefix :: "gostring \<Rightarrow> gostring \<Rightarrow> bool" where
  "strings_HasPrefix s [] = True"
| "strings_HasPrefix [] (p # ps) = False"
| "strings_HasPrefix (x # xs) (p # ps) = (x = p \<and> strings_HasPrefix xs ps)"

fun strings_Contains :: "gostring \<Rightarrow> gostring \<Rightarrow> bool" where
  "strings_Contains [] substr = (substr = [])"
| "strings_Contains (x # xs) substr =
     (strings_HasPrefix (x # xs) substr \<or> strings_Contains xs substr)"

text \<open>\<open>strings.ReplaceAll(s, old, new)\<close>: the non-overlapping occurrences of \<open>old\<close> are
  replaced from left to right; an empty \<open>old\<close> matches before every code point and at the
  end.\<close>

function strings_ReplaceAll :: "gostring \<Rightarrow> gostring \<Rightarrow> gostring \<Rightarrow> gostring" where
  "strings_ReplaceAll s old new =
     (if old = [] then new @ concat (map (\<lambda>x. x # new) s)
      else (case s of
              [] \<Rightarrow> []
            | x # xs \<Rightarrow>
                if strings_HasPrefix s old
                then new @ strings_ReplaceAll (drop (length old) s) old new
                else x # strings_ReplaceAll xs old new))"
  by pat_completeness auto
termination
  by (relation "measure (\<lambda>(s, old, new). length s)") auto

declare strings_ReplaceAll.simps [simp del]

text \<open>\<open>unicode.IsSpace\<close>: the code points of Unicode's White\_Space property.\<close>

definition unicode_IsSpace :: "rune \<Rightarrow> bool" where
  "unicode_IsSpace r \<longleftrightarrow>
     (9 \<le> r \<and> r \<le> 13) \<or> r = 32 \<or> r = 133 \<or> r = 160 \<or> r = 5760 \<or>
     (8192 \<le> r \<and> r \<le> 8202) \<or> r = 8232 \<or> r = 8233 \<or> r = 8239 \<or> r = 8287 \<or>
     r = 12288"

definition strings_TrimSpace :: "gostring \<Rightarrow> gostring" where
  "strings_TrimSpace s =
     rev (dropWhile unicode_IsSpace (rev (dropWhile unicode_IsSpace s)))"

text \<open>\<open>strings.Split(s, sep)\<close>: the pieces between the occurrences of \<open>sep\<close>; \<open>acc\<close> is
  the piece being read. An empty \<open>sep\<close> splits after every code point.\<close>

function splitAcc :: "gostring \<Rightarrow> gostring \<Rightarrow> gostring \<Rightarrow> gostring list" where
  "splitAcc acc s sep =
     (case s of
        [] \<Rightarrow> [acc]
      | x # xs \<Rightarrow>
          if sep \<noteq> [] \<and> strings_HasPrefix s sep
          then acc # splitAcc [] (drop (length sep) s) sep
          else splitAcc (acc @ [x]) xs sep)"
  by pat_completeness auto
termination
  by (relation "measure (\<lambda>(acc, s, sep). length s)") auto

declare splitAcc.simps [simp del]

definition strings_Split :: "gostring \<Rightarrow> gostring \<Rightarrow> gostring list" where
  "strings_Split s sep = (if sep = [] then map (\<lambda>x. [x]) s else splitAcc [] s sep)"

fun strings_Join :: "gostring list \<Rightarrow> gostring \<Rightarrow> gostring" where
  "strings_Join [] sep = []"
| "strings_Join [e] sep = e"
| "strings_Join (e # es) sep = e @ sep @ strings_Join es sep"

section \<open>The converter's tables\<close>

text \<open>\<open>specialChars\<close> is a Go map from string to string, written here in the order of
  the map literal in \<open>NewLaTeXConverter\<close>.\<close>

type_synonym table = "(gostring \<times> gostring) list"

definition specialChars :: table where
  "specialChars =
     [(str ''&'', backslash # str ''&''),
      (str ''%'', backslash # str ''%''),
      (str ''$'', backslash # str ''$''),
      (str ''#'', backslash # str ''#''),
      (str ''_'', backslash # str ''_''),
      (str ''{'', backslash # str ''{''),
      (str ''}'', backslash # str ''}''),
      (str ''~'', backslash # str ''textasciitilde{}''),
      (str ''^'', backslash # str ''textasciicircum{}''),
      ([backslash], backslash # str ''textbackslash{}'')]"

text \<open>
  Go does not fix the order in which \<open>for k, v := range m\<close> visits a map, and the runtime
  randomises it from one loop to the next. The order a loop takes is therefore an input
  of the model: each function that ranges over a map receives the list of entries in the
  order visited, and \<open>iteration_of m order\<close> says that \<open>order\<close> visits every entry of \<open>m\<close>
  exactly once.
\<close>

definition iteration_of :: "table \<Rightarrow> table \<Rightarrow> bool" where
  "iteration_of m order \<longleftrightarrow> mset order = mset m"

section \<open>escapeSpecialChars\<close>

definition escapeSpecialChars :: "table \<Rightarrow> gostring \<Rightarrow> gostring" where
  "escapeSpecialChars order text =
     fold (\<lambda>(char, replacement) result. strings_ReplaceAll result char replacement)
       order text"


section \<open>Package regexp\<close>

text \<open>
  A compiled pattern is written as its syntax tree. The patterns of latex.go apply
  \<open>+\<close> and \<open>*\<close> to character classes only, so these two take a class. Go's Perl
  classes are ASCII: \<open>\d\<close> is \<open>[0-9]\<close>, \<open>\w\<close> is \<open>[0-9A-Za-z_]\<close>, \<open>\s\<close> is
  \<open>[\t\n\f\r ]\<close>; \<open>.\<close> is every code point but the line feed; \<open>\b\<close> is the ASCII word
  boundary; without the flag \<open>m\<close>, \<open>^\<close> and \<open>$\<close> are the two ends of the text.
\<close>

datatype regex =
    Empty
  | Lit rune
  | Class "rune \<Rightarrow> bool"
  | Plus "rune \<Rightarrow> bool"
  | Star "rune \<Rightarrow> bool"
  | Seq regex regex
  | Alt regex regex
  | Group nat regex
  | WordBoundary
  | BeginText
  | EndText

definition perl_d :: "rune \<Rightarrow> bool" where
  "perl_d r \<longleftrightarrow> 48 \<le> r \<and> r \<le> 57"

definition ascii_letter :: "rune \<Rightarrow> bool" where
  "ascii_letter r \<longleftrightarrow> (65 \<le> r \<and> r \<le> 90) \<or> (97 \<le> r \<and> r \<le> 122)"

definition perl_w :: "rune \<Rightarrow> bool" where
  "perl_w r \<longleftrightarrow> perl_d r \<or> ascii_letter r \<or> r = 95"

definition perl_s :: "rune \<Rightarrow> bool" where
  "perl_s r \<longleftrightarrow> r = 9 \<or> r = 10 \<or> r = 12 \<or> r = 13 \<or> r = 32"

definition any_char :: "rune \<Rightarrow> bool" where
  "any_char r \<longleftrightarrow> r \<noteq> 10"

definition one_of :: "string \<Rightarrow> rune \<Rightarrow> bool" where
  "one_of cs r \<longleftrightarrow> r \<in> set (str cs)"

definition none_of :: "string \<Rightarrow> rune \<Rightarrow> bool" where
  "none_of cs r \<longleftrightarrow> r \<notin> set (str cs)"

fun literal :: "gostring \<Rightarrow> regex" where
  "literal [] = Empty"
| "literal (c # cs) = Seq (Lit c) (literal cs)"

fun seqs :: "regex list \<Rightarrow> regex" where
  "seqs [] = Empty"
| "seqs [r] = r"
| "seqs (r # rs) = Seq r (seqs rs)"

fun alts :: "regex \<Rightarrow> regex list \<Rightarrow> regex" where
  "alts r [] = r"
| "alts r (r' # rs) = Alt r (alts r' rs)"

text \<open>
  Go's regexp finds the leftmost match and, among the matches that start there, the one
  a backtracking search meets first (greedy operators try the longest run first, an
  alternation its left branch first). A thread of that search is the text before the
  position (last code point first), the text from the position on, and the submatches
  recorded so far. \<open>step re t\<close> lists the threads that leave \<open>re\<close> when it is entered
  by \<open>t\<close>, in the order the search meets them.
\<close>

type_synonym captures = "(nat \<times> gostring) list"
type_synonym thread = "gostring \<times> gostring \<times> captures"

fun runs :: "(rune \<Rightarrow> bool) \<Rightarrow> gostring \<Rightarrow> gostring \<Rightarrow> captures \<Rightarrow> thread list" where
  "runs p l [] cs = [(l, [], cs)]"
| "runs p l (x # xs) cs = (if p x then runs p (x # l) xs cs else []) @ [(l, x # xs, cs)]"

definition isWordAt :: "gostring \<Rightarrow> bool" where
  "isWordAt s = (case s of [] \<Rightarrow> False | x # xs \<Rightarrow> perl_w x)"

fun step :: "regex \<Rightarrow> thread \<Rightarrow> thread list" where
  "step Empty t = [t]"
| "step (Lit c) (l, r, cs) =
     (case r of [] \<Rightarrow> [] | x # xs \<Rightarrow> if x = c then [(x # l, xs, cs)] else [])"
| "step (Class p) (l, r, cs) =
     (case r of [] \<Rightarrow> [] | x # xs \<Rightarrow> if p x then [(x # l, xs, cs)] else [])"
| "step (Plus p) (l, r, cs) =
     (case r of [] \<Rightarrow> [] | x # xs \<Rightarrow> if p x then runs p (x # l) xs cs else [])"
| "step (Star p) (l, r, cs) = runs p l r cs"
| "step (Seq a b) t = concat (map (step b) (step a t))"
| "step (Alt a b) t = step a t @ step b t"
| "step (Group n a) (l, r, cs) =
     map (\<lambda>(l', r', cs'). (l', r', (n, take (length r - length r') r) # cs'))
       (step a (l, r, cs))"
| "step WordBoundary (l, r, cs) = (if isWordAt l \<noteq> isWordAt r then [(l, r, cs)] else [])"
| "step BeginText (l, r, cs) = (if l = [] then [(l, r, cs)] else [])"
| "step EndText (l, r, cs) = (if r = [] then [(l, r, cs)] else [])"

text \<open>\<open>re.MatchString(s)\<close>: some position of \<open>s\<close> starts a match.\<close>

fun matchFrom :: "regex \<Rightarrow> gostring \<Rightarrow> gostring \<Rightarrow> bool" where
  "matchFrom re l [] = (step re (l, [], []) \<noteq> [])"
| "matchFrom re l (x # xs) =
     (if step re (l, x # xs, []) \<noteq> [] then True else matchFrom re (x # l) xs)"

definition regexp_MatchString :: "regex \<Rightarrow> gostring \<Rightarrow> bool" where
  "regexp_MatchString re s = matchFrom re [] s"

text \<open>
  A replacement template is written parsed: its literal text and its \<open>$n\<close> references.
  In Go's templates the name after \<open>$\<close> is the longest run of letters, digits and
  underscores; in every template of latex.go that run is a single digit. A group that
  took no part in the match expands to the empty string.
\<close>

datatype piece = Text gostring | Submatch nat

fun expand :: "piece list \<Rightarrow> captures \<Rightarrow> gostring" where
  "expand [] cs = []"
| "expand (Text t # ps) cs = t @ expand ps cs"
| "expand (Submatch n # ps) cs =
     (case map_of cs n of None \<Rightarrow> [] | Some t \<Rightarrow> t) @ expand ps cs"

text \<open>
  \<open>re.ReplaceAllString(src, repl)\<close>: the successive non-overlapping leftmost matches are
  replaced by the expanded template and the text between them is copied. After a match
  the search goes on where the match ended; an empty match directly after a match is
  skipped, and after an empty match the search moves on by one code point.
\<close>

function replaceFrom ::
  "regex \<Rightarrow> piece list \<Rightarrow> bool \<Rightarrow> gostring \<Rightarrow> gostring \<Rightarrow> gostring" where
  "replaceFrom re repl afterMatch l r =
     (case step re (l, r, []) of
        [] \<Rightarrow> (case r of [] \<Rightarrow> [] | x # xs \<Rightarrow> x # replaceFrom re repl False (x # l) xs)
      | (l', r', cs) # others \<Rightarrow>
          if length r' < length r
          then expand repl ((0, take (length r - length r') r) # cs)
                 @ replaceFrom re repl True l' r'
          else (if afterMatch then [] else expand repl ((0, []) # cs))
                 @ (case r of [] \<Rightarrow> []
                    | x # xs \<Rightarrow> x # replaceFrom re repl False (x # l) xs))"
  by pat_completeness auto
termination
  by (relation "measure (\<lambda>(re, repl, afterMatch, l, r). length r)") auto

declare replaceFrom.simps [simp del]

definition regexp_ReplaceAllString :: "regex \<Rightarrow> gostring \<Rightarrow> piece list \<Rightarrow> gostring" where
  "regexp_ReplaceAllString re src repl = replaceFrom re repl False [] src"

section \<open>isMathExpression and isInlineMath\<close>

text \<open>The seven patterns of \<open>mathPatterns\<close>, in the order of the slice.\<close>

definition mathPatterns :: "regex list" where
  "mathPatterns =
     [Class (one_of ''=+-*/^()[]''),
      seqs [Plus perl_d, Class (one_of ''+-*/''), Plus perl_d],
      seqs [Class ascii_letter, Star perl_s, Lit (of_char CHR ''=''), Star perl_s,
            Plus perl_d],
      seqs [Class ascii_letter, Lit (of_char CHR ''(''), Plus (none_of '')''),
            Lit (of_char CHR '')'')],
      seqs [Lit backslash, Plus ascii_letter],
      seqs [Lit (of_char CHR ''$''), Lit (of_char CHR ''$'')],
      seqs [WordBoundary,
            Group 1 (alts (literal (str ''sin''))
              [literal (str ''cos''), literal (str ''tan''), literal (str ''log''),
               literal (str ''ln''), literal (str ''lim''), literal (str ''sum''),
               literal (str ''prod''), literal (str ''int'')]),
            WordBoundary]]"

text \<open>The symbols of the \<open>strings.ContainsAny\<close> call: fifteen ASCII signs, then
  U+00B1, U+00D7, U+00F7, the operators U+2202, U+2206, U+2207, U+222B, U+2211, U+220F,
  U+221A, U+221E, U+2248, U+2260, U+2264, U+2265 and the Greek letters as the source
  spells them (U+03F5 for epsilon, U+03D5 for phi; no omicron).\<close>

definition mathSymbols :: gostring where
  "mathSymbols =
     str ''=+-*/^()[]{}<>|'' @
     [177, 215, 247, 8706, 8710, 8711, 8747, 8721, 8719, 8730, 8734, 8776, 8800, 8804,
      8805, 945, 946, 947, 948, 1013, 950, 951, 952, 953, 954, 955, 956, 957, 958, 960,
      961, 963, 964, 965, 981, 967, 968, 969]"

text \<open>
  The counting loop of \<open>isMathExpression\<close>; the pair is (mathCharCount, totalChars).
  \<open>unicode.IsDigit\<close> tests Unicode's category Nd, a table of Go's library that is not in
  the repository: the predicate is the parameter \<open>isDigit\<close>.
\<close>

fun countMathChars :: "(rune \<Rightarrow> bool) \<Rightarrow> gostring \<Rightarrow> nat \<times> nat \<Rightarrow> nat \<times> nat" where
  "countMathChars isDigit [] (mathCharCount, totalChars) = (mathCharCount, totalChars)"
| "countMathChars isDigit (char # rest) (mathCharCount, totalChars) =
     (if unicode_IsSpace char then countMathChars isDigit rest (mathCharCount, totalChars)
      else if char \<in> set mathSymbols
        then countMathChars isDigit rest (mathCharCount + 1, totalChars + 1)
      else if isDigit char
        then countMathChars isDigit rest (mathCharCount + 1, totalChars + 1)
      else countMathChars isDigit rest (mathCharCount, totalChars + 1))"

fun anyMatch :: "regex list \<Rightarrow> gostring \<Rightarrow> bool" where
  "anyMatch [] text = False"
| "anyMatch (pattern # patterns) text =
     (if regexp_MatchString pattern text then True else anyMatch patterns text)"

text \<open>The quotient of the two counts is taken exactly; Go's float64 quotient compares
  with 0.6 in the same way for every text of fewer than 10^15 characters.\<close>

definition isMathExpression :: "(rune \<Rightarrow> bool) \<Rightarrow> gostring \<Rightarrow> bool" where
  "isMathExpression isDigit text =
     (if strings_Contains text [backslash] then True
      else
        (case countMathChars isDigit text (0, 0) of
           (mathCharCount, totalChars) \<Rightarrow>
             if totalChars > 0 \<and> real mathCharCount / real totalChars > 0.6 then True
             else anyMatch mathPatterns text))"

definition inlinePatterns :: "regex list" where
  "inlinePatterns =
     [seqs [BeginText, Class ascii_letter, Star perl_s, Lit (of_char CHR ''=''),
            Star perl_s, Plus any_char, EndText],
      seqs [BeginText, Plus any_char, Lit (of_char CHR ''^''), Plus any_char, Star perl_s,
            Lit (of_char CHR ''=''), Plus any_char, EndText],
      seqs [BeginText, Class (one_of ''xyz''), Star perl_s, Lit (of_char CHR ''=''),
            Star perl_s, Plus perl_d, EndText]]"

definition isInlineMath :: "gostring \<Rightarrow> bool" where
  "isInlineMath text = anyMatch inlinePatterns text"

section \<open>processMathExpressions\<close>

text \<open>\<open>mathFunctions\<close> is a Go map as well; the loop over it takes its order as input.\<close>

definition mathFunctions :: table where
  "mathFunctions =
     [(str ''sin'', backslash # str ''sin''),
      (str ''cos'', backslash # str ''cos''),
      (str ''tan'', backslash # str ''tan''),
      (str ''log'', backslash # str ''log''),
      (str ''ln'', backslash # str ''ln''),
      (str ''lim'', backslash # str ''lim''),
      (str ''sum'', backslash # str ''sum''),
      (str ''prod'', backslash # str ''prod''),
      (str ''int'', backslash # str ''int'')]"

definition functionPattern :: "gostring \<Rightarrow> regex" where
  "functionPattern funcName = seqs [WordBoundary, literal funcName, WordBoundary]"

definition fractionPattern :: regex where
  "fractionPattern =
     seqs [Group 1 (Plus perl_d), Lit (of_char CHR ''/''), Group 2 (Plus perl_d)]"

definition exponentPattern :: regex where
  "exponentPattern =
     seqs [Group 1 (Plus perl_w), Lit (of_char CHR ''^''), Group 2 (Plus perl_d)]"

definition sqrtPattern :: regex where
  "sqrtPattern =
     seqs [literal (str ''sqrt''), Lit (of_char CHR ''(''), Group 1 (Plus (none_of '')'')),
           Lit (of_char CHR '')'')]"

definition integralPattern :: regex where
  "integralPattern =
     seqs [literal (str ''int_''), Group 1 (Plus perl_w), Lit (of_char CHR ''^''),
           Group 2 (Plus perl_w), Star perl_s, Group 3 (Plus perl_w)]"

definition replaceFunctions :: "table \<Rightarrow> gostring \<Rightarrow> gostring" where
  "replaceFunctions order text =
     fold (\<lambda>(funcName, latexCmd) result.
             regexp_ReplaceAllString (functionPattern funcName) result [Text latexCmd])
       order text"

definition processMathExpressions :: "table \<Rightarrow> gostring \<Rightarrow> gostring" where
  "processMathExpressions order text =
     (let result = replaceFunctions order text;
          result = regexp_ReplaceAllString fractionPattern result
                     [Text (backslash # str ''frac{''), Submatch 1, Text (str ''}{''),
                      Submatch 2, Text (str ''}'')];
          result = regexp_ReplaceAllString exponentPattern result
                     [Submatch 1, Text (str ''^{''), Submatch 2, Text (str ''}'')];
          result = regexp_ReplaceAllString sqrtPattern result
                     [Text (backslash # str ''sqrt{''), Submatch 1, Text (str ''}'')];
          result = regexp_ReplaceAllString integralPattern result
                     [Text (backslash # str ''int_{''), Submatch 1, Text (str ''}^{''),
                      Submatch 2, Text (str ''} ''), Submatch 3]
      in result)"

section \<open>ConvertToLatex\<close>

definition displayMath :: "gostring \<Rightarrow> gostring" where
  "displayMath processedMath =
     backslash # str ''[ '' @ processedMath @ str '' '' @ backslash # str '']''"

definition inlineMath :: "gostring \<Rightarrow> gostring" where
  "inlineMath processedMath =
     backslash # str ''( '' @ processedMath @ str '' '' @ backslash # str '')''"

text \<open>The body of the loop of \<open>ConvertToLatex\<close> for a trimmed, non-empty line.
  \<open>escOrder\<close> and \<open>funOrder\<close> are the orders in which the two map loops run for it.\<close>

definition convertLine :: "(rune \<Rightarrow> bool) \<Rightarrow> table \<Rightarrow> table \<Rightarrow> gostring \<Rightarrow> gostring" where
  "convertLine isDigit escOrder funOrder line =
     (let escapedLine = escapeSpecialChars escOrder line in
      if isMathExpression isDigit escapedLine
        then displayMath (processMathExpressions funOrder escapedLine)
      else if isInlineMath escapedLine
        then inlineMath (processMathExpressions funOrder escapedLine)
      else escapedLine)"

text \<open>
  The loop over the lines. \<open>orders k\<close> gives the two map orders taken for the \<open>k\<close>-th
  line that is not blank (counted from \<open>0\<close>); a blank line reaches neither map loop.
\<close>

type_synonym orders = "nat \<Rightarrow> table \<times> table"

fun latexLines :: "(rune \<Rightarrow> bool) \<Rightarrow> orders \<Rightarrow> nat \<Rightarrow> gostring list \<Rightarrow> gostring list" where
  "latexLines isDigit orders k [] = []"
| "latexLines isDigit orders k (l # lines) =
     (let line = strings_TrimSpace l in
      if line = [] then latexLines isDigit orders k lines
      else convertLine isDigit (fst (orders k)) (snd (orders k)) line
             # latexLines isDigit orders (Suc k) lines)"

definition ConvertToLatex :: "(rune \<Rightarrow> bool) \<Rightarrow> orders \<Rightarrow> gostring \<Rightarrow> gostring" where
  "ConvertToLatex isDigit orders text =
     (if text = [] then []
      else strings_Join (latexLines isDigit orders 0 (strings_Split text [linefeed]))
             [linefeed])"

definition map_orders :: "orders \<Rightarrow> bool" where
  "map_orders orders \<longleftrightarrow>
     (\<forall>k. iteration_of specialChars (fst (orders k)) \<and>
          iteration_of mathFunctions (snd (orders k)))"

section \<open>regexp.MustCompile\<close>

text \<open>
  The functions above take the compiled patterns as given. The source obtains them from
  \<open>regexp.MustCompile\<close>, which panics when the pattern does not parse: this is the one
  operation of latex.go that can fail. This section models the parser of Go's
  \<open>regexp/syntax\<close> (with the flags of \<open>regexp.Compile\<close>) for the part of the syntax that
  the program uses: literals, escaped punctuation, \<open>\d\<close>, \<open>\w\<close>, \<open>\s\<close>, \<open>\b\<close>, \<open>.\<close>,
  \<open>^\<close>, \<open>$\<close>, bracket classes with ranges and negation, capturing groups, alternation,
  and \<open>+\<close> and \<open>*\<close> after a single character or class. The errors are Go's; every other
  construct (\<open>?\<close>, \<open>{n,m}\<close>, \<open>(?...)\<close>, the escapes of letters and digits that are not
  listed, POSIX classes, a repetition of a group or of an empty-width operator) is
  answered by the error \<open>Unsupported\<close>, so the model fails wherever Go does and on more.
  Which error is reported when a pattern has several is not modelled.
\<close>

datatype syntaxError =
    MissingBracket | MissingParen | UnexpectedParen | MissingRepeatArgument
  | InvalidRepeatOp | TrailingBackslash | InvalidEscape | InvalidCharRange | Unsupported

datatype token = TAtom regex | TRepeat bool | TLParen | TRParen | TBar

definition is_alnum :: "rune \<Rightarrow> bool" where
  "is_alnum c \<longleftrightarrow> perl_d c \<or> ascii_letter c"

definition in_class :: "bool \<Rightarrow> (rune \<times> rune) list \<Rightarrow> rune \<Rightarrow> bool" where
  "in_class negated ranges r \<longleftrightarrow> (list_ex (\<lambda>(lo, hi). lo \<le> r \<and> r \<le> hi) ranges \<noteq> negated)"

definition parseEscape :: "gostring \<Rightarrow> syntaxError + rune \<times> gostring" where
  "parseEscape t =
     (case t of
        [] \<Rightarrow> Inl TrailingBackslash
      | c # t' \<Rightarrow>
          if 0 \<le> c \<and> c < 128 \<and> \<not> is_alnum c then Inr (c, t')
          else if is_alnum c then Inl Unsupported
          else Inl InvalidEscape)"

definition parseClassChar :: "gostring \<Rightarrow> syntaxError + rune \<times> gostring" where
  "parseClassChar t =
     (case t of
        [] \<Rightarrow> Inl MissingBracket
      | c # t' \<Rightarrow> if c = backslash then parseEscape t' else Inr (c, t'))"

text \<open>The body of a bracket class after the optional \<open>^\<close>: single characters and ranges
  up to the closing bracket, which is literal when it comes first.\<close>

function classRanges ::
  "gostring \<Rightarrow> (rune \<times> rune) list \<Rightarrow> bool \<Rightarrow> syntaxError + (rune \<times> rune) list \<times> gostring" where
  "classRanges t ranges first =
     (case t of
        [] \<Rightarrow> Inl MissingBracket
      | c # t1 \<Rightarrow>
          if c = of_char CHR '']'' \<and> \<not> first then Inr (ranges, t1)
          else if c = of_char CHR ''['' \<and> strings_HasPrefix t1 (str '':'') then Inl Unsupported
          else
            (case parseClassChar t of
               Inl err \<Rightarrow> Inl err
             | Inr (lo, t2) \<Rightarrow>
                 if strings_HasPrefix t2 (str ''-'') \<and> 2 \<le> length t2 \<and>
                    \<not> strings_HasPrefix t2 (str ''-]'')
                 then (case parseClassChar (drop 1 t2) of
                         Inl err \<Rightarrow> Inl err
                       | Inr (hi, t3) \<Rightarrow>
                           if hi < lo then Inl InvalidCharRange
                           else classRanges t3 (ranges @ [(lo, hi)]) False)
                 else classRanges t2 (ranges @ [(lo, lo)]) False))"
  by pat_completeness auto
termination
proof -
  have shorter: "\<And>t c t'. parseClassChar t = Inr (c, t') \<Longrightarrow> length t' < length t"
    by (auto simp: parseClassChar_def parseEscape_def split: list.splits if_splits)
  show ?thesis
  proof (relation "measure (\<lambda>(t, ranges, first). length t)", goal_cases)
    case 1
    then show ?case by simp
  next
    case (2 t ranges first c t1 x lo t2 y hi t3)
    from shorter [of "drop 1 t2" hi t3] shorter [of t lo t2] 2 show ?case by auto
  next
    case (3 t ranges first c t1 x lo t2)
    from shorter [of t lo t2] 3 show ?case by auto
  qed
qed

declare classRanges.simps [simp del]

definition parseClass :: "gostring \<Rightarrow> syntaxError + token \<times> gostring" where
  "parseClass t =
     (let negated = strings_HasPrefix t (str ''^'');
          t = (if negated then drop 1 t else t)
      in case classRanges t [] True of
           Inl err \<Rightarrow> Inl err
         | Inr (ranges, rest) \<Rightarrow> Inr (TAtom (Class (in_class negated ranges)), rest))"

definition scanOne :: "rune \<Rightarrow> gostring \<Rightarrow> syntaxError + token \<times> gostring" where
  "scanOne c t =
     (if c = backslash then
        (if strings_HasPrefix t (str ''b'') then Inr (TAtom WordBoundary, drop 1 t)
         else if strings_HasPrefix t (str ''d'') then Inr (TAtom (Class perl_d), drop 1 t)
         else if strings_HasPrefix t (str ''w'') then Inr (TAtom (Class perl_w), drop 1 t)
         else if strings_HasPrefix t (str ''s'') then Inr (TAtom (Class perl_s), drop 1 t)
         else (case parseEscape t of
                 Inl err \<Rightarrow> Inl err
               | Inr (e, t') \<Rightarrow> Inr (TAtom (Lit e), t')))
      else if c = of_char CHR ''['' then parseClass t
      else if c = of_char CHR ''('' then
        (if strings_HasPrefix t (str ''?'') then Inl Unsupported else Inr (TLParen, t))
      else if c = of_char CHR '')'' then Inr (TRParen, t)
      else if c = of_char CHR ''|'' then Inr (TBar, t)
      else if c = of_char CHR ''*'' then Inr (TRepeat False, t)
      else if c = of_char CHR ''+'' then Inr (TRepeat True, t)
      else if c = of_char CHR ''?'' \<or> c = of_char CHR ''{'' then Inl Unsupported
      else if c = of_char CHR ''^'' then Inr (TAtom BeginText, t)
      else if c = of_char CHR ''$'' then Inr (TAtom EndText, t)
      else if c = of_char CHR ''.'' then Inr (TAtom (Class any_char), t)
      else Inr (TAtom (Lit c), t))"

text \<open>The tokens of a pattern, read from left to right.\<close>

function scan :: "gostring \<Rightarrow> syntaxError + token list" where
  "scan s =
     (case s of
        [] \<Rightarrow> Inr []
      | c # t \<Rightarrow>
          (case scanOne c t of
             Inl err \<Rightarrow> Inl err
           | Inr (tok, rest) \<Rightarrow>
               (case scan rest of Inl err \<Rightarrow> Inl err | Inr toks \<Rightarrow> Inr (tok # toks))))"
  by pat_completeness auto
termination
proof -
  have shorter: "\<And>t c t'. parseClassChar t = Inr (c, t') \<Longrightarrow> length t' < length t"
    by (auto simp: parseClassChar_def parseEscape_def split: list.splits if_splits)
  have ranges_shorter: "length rest < length t"
    if "classRanges t ranges first = Inr (rs, rest)" for t ranges first rs rest
    using that
  proof (induction t ranges first rule: classRanges.induct)
    case (1 t ranges first)
    note res = "1.prems" [unfolded classRanges.simps [of t ranges first]]
    show ?case
    proof (cases t)
      case Nil
      with res show ?thesis by simp
    next
      case (Cons c t1)
      show ?thesis
      proof (cases "c = of_char CHR '']'' \<and> \<not> first")
        case True
        with res Cons show ?thesis by auto
      next
        case nf: False
        show ?thesis
        proof (cases "c = of_char CHR ''['' \<and> strings_HasPrefix t1 (str '':'')")
          case True
          with res Cons nf show ?thesis by auto
        next
          case np: False
          show ?thesis
          proof (cases "parseClassChar t")
            case (Inl err)
            with res Cons nf np show ?thesis by auto
          next
            case (Inr p)
            obtain lo t2 where p: "p = (lo, t2)" by (cases p) auto
            note pc = Inr [unfolded p]
            note sh = shorter [OF pc]
            show ?thesis
            proof (cases "strings_HasPrefix t2 (str ''-'') \<and> 2 \<le> length t2 \<and>
                      \<not> strings_HasPrefix t2 (str ''-]'')")
              case rng: True
              show ?thesis
              proof (cases "parseClassChar (drop 1 t2)")
                case (Inl err)
                with res Cons nf np pc rng show ?thesis by auto
              next
                case i2: (Inr q)
                obtain hi t3 where q: "q = (hi, t3)" by (cases q) auto
                note pc2 = i2 [unfolded q]
                note sh2 = shorter [OF pc2]
                show ?thesis
                proof (cases "hi < lo")
                  case True
                  with res Cons nf np pc rng pc2 show ?thesis by auto
                next
                  case False
                  with res Cons nf np pc rng pc2 have
                    "classRanges t3 (ranges @ [(lo, hi)]) False = Inr (rs, rest)"
                    by auto
                  from "1.IH"(1) [OF Cons nf np pc refl rng pc2 refl False this]
                  have "length rest < length t3" .
                  with sh sh2 show ?thesis by simp
                qed
              qed
            next
              case nr: False
              with res Cons nf np pc have
                "classRanges t2 (ranges @ [(lo, lo)]) False = Inr (rs, rest)"
                by auto
              from "1.IH"(2) [OF Cons nf np pc refl nr this]
              have "length rest < length t2" .
              with sh show ?thesis by simp
            qed
          qed
        qed
      qed
    qed
  qed
  have one_shorter: "length rest \<le> length t" if "scanOne c t = Inr (tok, rest)" for c t tok rest
    using that
    by (auto simp: scanOne_def parseEscape_def parseClass_def Let_def
        split: if_splits list.splits sum.splits dest!: ranges_shorter)
  show ?thesis
  proof (relation "measure length", goal_cases)
    case 1
    then show ?case by simp
  next
    case (2 s c t x tok rest)
    with one_shorter [of c t tok rest] show ?case by simp
  qed
qed

declare scan.simps [simp del]

text \<open>
  Go's parser keeps a stack: an opening parenthesis starts a new frame with the next
  group number, a bar closes a branch of the alternation, a closing parenthesis closes
  the frame and appends the group to the frame below. A frame is the group number, the
  branches closed so far and the items of the branch being read.
\<close>

fun alts_of :: "regex list \<Rightarrow> regex" where
  "alts_of [] = Empty"
| "alts_of (r # rs) = alts r rs"

fun repeat :: "bool \<Rightarrow> regex \<Rightarrow> syntaxError + regex" where
  "repeat isPlus (Lit c) = Inr (if isPlus then Plus (\<lambda>r. r = c) else Star (\<lambda>r. r = c))"
| "repeat isPlus (Class p) = Inr (if isPlus then Plus p else Star p)"
| "repeat isPlus (Plus p) = Inl InvalidRepeatOp"
| "repeat isPlus (Star p) = Inl InvalidRepeatOp"
| "repeat isPlus re = Inl Unsupported"

type_synonym frame = "nat \<times> regex list \<times> regex list"

fun parseTokens :: "token list \<Rightarrow> nat \<Rightarrow> frame \<Rightarrow> frame list \<Rightarrow> syntaxError + regex" where
  "parseTokens [] numCap (cap, branches, items) stack =
     (if stack = [] then Inr (alts_of (branches @ [seqs items])) else Inl MissingParen)"
| "parseTokens (TAtom a # toks) numCap (cap, branches, items) stack =
     parseTokens toks numCap (cap, branches, items @ [a]) stack"
| "parseTokens (TRepeat isPlus # toks) numCap (cap, branches, items) stack =
     (case rev items of
        [] \<Rightarrow> Inl MissingRepeatArgument
      | a # before \<Rightarrow>
          (case repeat isPlus a of
             Inl err \<Rightarrow> Inl err
           | Inr re \<Rightarrow> parseTokens toks numCap (cap, branches, rev before @ [re]) stack))"
| "parseTokens (TLParen # toks) numCap (cap, branches, items) stack =
     parseTokens toks (Suc numCap) (Suc numCap, [], []) ((cap, branches, items) # stack)"
| "parseTokens (TBar # toks) numCap (cap, branches, items) stack =
     parseTokens toks numCap (cap, branches @ [seqs items], []) stack"
| "parseTokens (TRParen # toks) numCap (cap, branches, items) stack =
     (case stack of
        [] \<Rightarrow> Inl UnexpectedParen
      | (cap', branches', concat') # stack' \<Rightarrow>
          parseTokens toks numCap
            (cap', branches', concat' @ [Group cap (alts_of (branches @ [seqs items]))])
            stack')"

text \<open>
  \<open>regexp.MustCompile(str)\<close> returns the compiled pattern or panics with the error of
  the parser; \<open>Inl\<close> is the panic. Go also refuses an expression that nests deeper than
  1000 levels or is too large; a source of at most 500 code points stays below both
  limits, and a longer one counts as an error here.
\<close>

definition regexp_MustCompile :: "gostring \<Rightarrow> syntaxError + regex" where
  "regexp_MustCompile src =
     (if length src > 500 then Inl Unsupported
      else (case scan src of
              Inl err \<Rightarrow> Inl err
            | Inr toks \<Rightarrow> parseTokens toks 0 (0, [], []) []))"

section \<open>The functions of latex.go with their calls of MustCompile\<close>

text \<open>The pattern sources, as the raw string literals of the source spell them.\<close>

definition mathPatternSources :: "gostring list" where
  "mathPatternSources =
     [str ''[=+'' @ backslash # str ''-*/^()'' @ backslash # str ''['' @ backslash # str '']]'',
      backslash # str ''d+[+'' @ backslash # str ''-*/]'' @ backslash # str ''d+'',
      str ''[a-zA-Z]'' @ backslash # str ''s*='' @ backslash # str ''s*'' @ backslash # str ''d+'',
      str ''[a-zA-Z]'' @ backslash # str ''([^)]+'' @ backslash # str '')'',
      backslash # backslash # str ''[a-zA-Z]+'',
      backslash # str ''$'' @ backslash # str ''$'',
      backslash # str ''b(sin|cos|tan|log|ln|lim|sum|prod|int)'' @ backslash # str ''b'']"

definition inlinePatternSources :: "gostring list" where
  "inlinePatternSources =
     [str ''^[a-zA-Z]'' @ backslash # str ''s*='' @ backslash # str ''s*.+$'',
      str ''^.+'' @ backslash # str ''^.+'' @ backslash # str ''s*=.+$'',
      str ''^[xyz]'' @ backslash # str ''s*='' @ backslash # str ''s*'' @ backslash # str ''d+$'']"

definition functionSource :: "gostring \<Rightarrow> gostring" where
  "functionSource funcName = backslash # str ''b'' @ funcName @ backslash # str ''b''"

definition fractionSource :: gostring where
  "fractionSource = str ''('' @ backslash # str ''d+)/('' @ backslash # str ''d+)''"

definition exponentSource :: gostring where
  "exponentSource = str ''('' @ backslash # str ''w+)'' @ backslash # str ''^('' @ backslash # str ''d+)''"

definition sqrtSource :: gostring where
  "sqrtSource = str ''sqrt'' @ backslash # str ''(([^)]+)'' @ backslash # str '')''"

definition integralSource :: gostring where
  "integralSource =
     str ''int_('' @ backslash # str ''w+)'' @ backslash # str ''^('' @ backslash # str ''w+)'' @
     backslash # str ''s*('' @ backslash # str ''w+)''"

text \<open>
  \<open>LaTeXConverter\<close> is the struct of the source; \<open>run_NewLaTeXConverter\<close> and the
  functions \<open>run_...\<close> are the functions of latex.go with every call of
  \<open>regexp.MustCompile\<close> where the source has it: \<open>NewLaTeXConverter\<close> compiles the seven
  math patterns once, \<open>isInlineMath\<close> its three patterns at each call,
  \<open>processMathExpressions\<close> one pattern for each entry of \<open>mathFunctions\<close> it visits and
  then its four fixed patterns. A result \<open>Inl\<close> is a panic, which ends the call.
\<close>

record LaTeXConverter =
  conv_specialChars :: table
  conv_mathPatterns :: "regex list"

fun compileAll :: "gostring list \<Rightarrow> syntaxError + regex list" where
  "compileAll [] = Inr []"
| "compileAll (src # srcs) =
     (case regexp_MustCompile src of
        Inl err \<Rightarrow> Inl err
      | Inr re \<Rightarrow>
          (case compileAll srcs of Inl err \<Rightarrow> Inl err | Inr res \<Rightarrow> Inr (re # res)))"

definition run_NewLaTeXConverter :: "syntaxError + LaTeXConverter" where
  "run_NewLaTeXConverter =
     (case compileAll mathPatternSources of
        Inl err \<Rightarrow> Inl err
      | Inr patterns \<Rightarrow>
          Inr \<lparr>conv_specialChars = specialChars, conv_mathPatterns = patterns\<rparr>)"

definition run_isMathExpression :: "LaTeXConverter \<Rightarrow> (rune \<Rightarrow> bool) \<Rightarrow> gostring \<Rightarrow> bool" where
  "run_isMathExpression l isDigit text =
     (if strings_Contains text [backslash] then True
      else
        (case countMathChars isDigit text (0, 0) of
           (mathCharCount, totalChars) \<Rightarrow>
             if totalChars > 0 \<and> real mathCharCount / real totalChars > 0.6 then True
             else anyMatch (conv_mathPatterns l) text))"

definition run_isInlineMath :: "gostring \<Rightarrow> syntaxError + bool" where
  "run_isInlineMath text =
     (case compileAll inlinePatternSources of
        Inl err \<Rightarrow> Inl err
      | Inr patterns \<Rightarrow> Inr (anyMatch patterns text))"

fun run_replaceFunctions :: "table \<Rightarrow> gostring \<Rightarrow> syntaxError + gostring" where
  "run_replaceFunctions [] result = Inr result"
| "run_replaceFunctions ((funcName, latexCmd) # order) result =
     (case regexp_MustCompile (functionSource funcName) of
        Inl err \<Rightarrow> Inl err
      | Inr pattern \<Rightarrow>
          run_replaceFunctions order
            (regexp_ReplaceAllString pattern result [Text latexCmd]))"

definition run_processMathExpressions :: "table \<Rightarrow> gostring \<Rightarrow> syntaxError + gostring" where
  "run_processMathExpressions order text =
     (case run_replaceFunctions order text of
        Inl err \<Rightarrow> Inl err
      | Inr result1 \<Rightarrow>
     (case regexp_MustCompile fractionSource of
        Inl err \<Rightarrow> Inl err
      | Inr fractionRe \<Rightarrow>
     (case regexp_MustCompile exponentSource of
        Inl err \<Rightarrow> Inl err
      | Inr exponentRe \<Rightarrow>
     (case regexp_MustCompile sqrtSource of
        Inl err \<Rightarrow> Inl err
      | Inr sqrtRe \<Rightarrow>
     (case regexp_MustCompile integralSource of
        Inl err \<Rightarrow> Inl err
      | Inr integralRe \<Rightarrow>
          (let result = regexp_ReplaceAllString fractionRe result1
                     [Text (backslash # str ''frac{''), Submatch 1, Text (str ''}{''),
                      Submatch 2, Text (str ''}'')];
               result = regexp_ReplaceAllString exponentRe result
                     [Submatch 1, Text (str ''^{''), Submatch 2, Text (str ''}'')];
               result = regexp_ReplaceAllString sqrtRe result
                     [Text (backslash # str ''sqrt{''), Submatch 1, Text (str ''}'')];
               result = regexp_ReplaceAllString integralRe result
                     [Text (backslash # str ''int_{''), Submatch 1, Text (str ''}^{''),
                      Submatch 2, Text (str ''} ''), Submatch 3]
           in Inr result))))))"

definition run_convertLine ::
  "LaTeXConverter \<Rightarrow> (rune \<Rightarrow> bool) \<Rightarrow> table \<Rightarrow> table \<Rightarrow> gostring \<Rightarrow> syntaxError + gostring" where
  "run_convertLine l isDigit escOrder funOrder line =
     (let escapedLine = escapeSpecialChars escOrder line in
      if run_isMathExpression l isDigit escapedLine then
        (case run_processMathExpressions funOrder escapedLine of
           Inl err \<Rightarrow> Inl err
         | Inr processedMath \<Rightarrow> Inr (displayMath processedMath))
      else
        (case run_isInlineMath escapedLine of
           Inl err \<Rightarrow> Inl err
         | Inr inline \<Rightarrow>
             if inline then
               (case run_processMathExpressions funOrder escapedLine of
                  Inl err \<Rightarrow> Inl err
                | Inr processedMath \<Rightarrow> Inr (inlineMath processedMath))
             else Inr escapedLine))"

fun run_latexLines ::
  "LaTeXConverter \<Rightarrow> (rune \<Rightarrow> bool) \<Rightarrow> orders \<Rightarrow> nat \<Rightarrow> gostring list \<Rightarrow>
     syntaxError + gostring list" where
  "run_latexLines l isDigit orders k [] = Inr []"
| "run_latexLines l isDigit orders k (raw # lines) =
     (let line = strings_TrimSpace raw in
      if line = [] then run_latexLines l isDigit orders k lines
      else
        (case run_convertLine l isDigit (fst (orders k)) (snd (orders k)) line of
           Inl err \<Rightarrow> Inl err
         | Inr out \<Rightarrow>
             (case run_latexLines l isDigit orders (Suc k) lines of
                Inl err \<Rightarrow> Inl err
              | Inr outs \<Rightarrow> Inr (out # outs))))"

definition run_ConvertToLatex ::
  "LaTeXConverter \<Rightarrow> (rune \<Rightarrow> bool) \<Rightarrow> orders \<Rightarrow> gostring \<Rightarrow> syntaxError + gostring" where
  "run_ConvertToLatex l isDigit orders text =
     (if text = [] then Inr []
      else
        (case run_latexLines l isDigit orders 0 (strings_Split text [linefeed]) of
           Inl err \<Rightarrow> Inl err
         | Inr outs \<Rightarrow> Inr (strings_Join outs [linefeed])))"

text \<open>The text that \<open>SimpleTextExtractor.ExtractText\<close> returns, used as a test input:
  three lines separated by blank lines, with U+222B, U+2192 and U+221E.\<close>

definition sampleText :: gostring where
  "sampleText =
     str ''E = mc^2'' @ [linefeed, linefeed, 8747] @ str '' from 0 to 1 x^2 dx = 1/3'' @
     [linefeed, linefeed] @ str ''lim x'' @ [8594, 8734] @ str '' (1 + 1/x)^x = e''"

section \<open>Notions used in the proofs\<close>

text \<open>One turn of the loop of \<open>escapeSpecialChars\<close>, and what the proofs use of an
  entry of \<open>specialChars\<close>: its key is one code point, its replacement has a backslash,
  at least two code points and no circumflex.\<close>

definition escapeRule :: "gostring \<times> gostring \<Rightarrow> gostring \<Rightarrow> gostring" where
  "escapeRule = (\<lambda>(char, replacement) result. strings_ReplaceAll result char replacement)"

definition escape_entry :: "gostring \<times> gostring \<Rightarrow> bool" where
  "escape_entry e \<longleftrightarrow>
     length (fst e) = 1 \<and> backslash \<in> set (snd e) \<and> 2 \<le> length (snd e) \<and>
     of_char CHR ''^'' \<notin> set (snd e)"

text \<open>\<open>needs re c\<close>: every match of \<open>re\<close> reads the code point \<open>c\<close> (a literal on every
  path through the pattern). \<open>template_text\<close>: the literal text of a template.\<close>

fun needs :: "regex \<Rightarrow> rune \<Rightarrow> bool" where
  "needs (Lit a) c = (a = c)"
| "needs (Seq a b) c = (needs a c \<or> needs b c)"
| "needs (Alt a b) c = (needs a c \<and> needs b c)"
| "needs (Group n a) c = needs a c"
| "needs re c = False"

fun template_text :: "piece list \<Rightarrow> gostring" where
  "template_text [] = []"
| "template_text (Text t # ps) = t @ template_text ps"
| "template_text (Submatch n # ps) = template_text ps"

text \<open>\<open>seq_items\<close> flattens nested sequences and drops empty ones; two patterns with the
  same items have the same matches. \<open>compiles_as src re\<close>: the source \<open>src\<close> compiles, to a
  pattern with the items of \<open>re\<close>.\<close>

fun seq_items :: "regex \<Rightarrow> regex list" where
  "seq_items Empty = []"
| "seq_items (Seq a b) = seq_items a @ seq_items b"
| "seq_items (Alt a b) = [Alt (seqs (seq_items a)) (seqs (seq_items b))]"
| "seq_items (Group n a) = [Group n (seqs (seq_items a))]"
| "seq_items re = [re]"

definition compiles_as :: "gostring \<Rightarrow> regex \<Rightarrow> bool" where
  "compiles_as src hand \<longleftrightarrow>
     (\<exists>re. regexp_MustCompile src = Inr re \<and> seq_items re = seq_items hand)"

section \<open>Facts about package strings\<close>

lemma HasPrefix_single: "strings_HasPrefix s [c] \<longleftrightarrow> (\<exists>t. s = c # t)"
  by (cases s) auto

lemma HasPrefix_set: "strings_HasPrefix s p \<Longrightarrow> set p \<subseteq> set s"
  by (induction s p rule: strings_HasPrefix.induct) auto

lemma Contains_single: "strings_Contains s [c] \<longleftrightarrow> c \<in> set s"
  by (induction s) (auto simp: HasPrefix_single)

lemma Contains_set: "strings_Contains s p \<Longrightarrow> set p \<subseteq> set s"
proof (induction s)
  case Nil
  then show ?case by simp
next
  case (Cons x xs)
  then show ?case using HasPrefix_set [of "x # xs" p] by auto
qed

lemma ReplaceAll_absent:
  "\<not> strings_Contains s old \<Longrightarrow> strings_ReplaceAll s old new = s"
proof (induction s)
  case Nil
  then show ?case by (simp add: strings_ReplaceAll.simps)
next
  case (Cons x xs)
  from Cons.prems have "old \<noteq> []" by (cases old) auto
  with Cons show ?case by (simp add: strings_ReplaceAll.simps [of "x # xs"])
qed

lemma ReplaceAll_single:
  "strings_ReplaceAll s [c] new = concat (map (\<lambda>x. if x = c then new else [x]) s)"
proof (induction s)
  case Nil
  then show ?case by (simp add: strings_ReplaceAll.simps)
next
  case (Cons x xs)
  then show ?case by (simp add: strings_ReplaceAll.simps [of "x # xs"])
qed

section \<open>Facts about escapeSpecialChars\<close>

lemma fold_fixed:
  "(\<And>r. r \<in> set rs \<Longrightarrow> f r s = s) \<Longrightarrow> fold f rs s = s"
  by (induction rs) auto

lemma escapeSpecialChars_fold: "escapeSpecialChars order text = fold escapeRule order text"
  by (simp add: escapeSpecialChars_def escapeRule_def)

lemma specialChars_entries: "\<forall>e \<in> set specialChars. escape_entry e"
  by (simp add: specialChars_def escape_entry_def str_def backslash_def)

lemma iteration_set: "iteration_of m order \<Longrightarrow> set order = set m"
  unfolding iteration_of_def by (rule mset_eq_setD)

lemma ReplaceAll_single_set:
  "set (strings_ReplaceAll s [c] new) =
     (set s - {c}) \<union> (if c \<in> set s then set new else {})"
  unfolding ReplaceAll_single by (induction s) auto

lemma ReplaceAll_single_length:
  "new \<noteq> [] \<Longrightarrow> length s \<le> length (strings_ReplaceAll s [c] new)"
  unfolding ReplaceAll_single
proof (induction s)
  case Nil
  then show ?case by simp
next
  case (Cons x xs)
  then show ?case by (cases new) auto
qed

lemma ReplaceAll_single_longer:
  "2 \<le> length new \<Longrightarrow> c \<in> set s \<Longrightarrow> length s < length (strings_ReplaceAll s [c] new)"
proof (induction s)
  case Nil
  then show ?case by simp
next
  case (Cons x xs)
  have ne: "new \<noteq> []" using Cons.prems(1) by auto
  show ?case
  proof (cases "x = c")
    case True
    with Cons.prems(1) ReplaceAll_single_length [OF ne, of xs c] show ?thesis
      by (simp add: ReplaceAll_single)
  next
    case False
    with Cons show ?thesis by (simp add: ReplaceAll_single)
  qed
qed

lemma entry_key: "escape_entry e \<Longrightarrow> \<exists>c. fst e = [c]"
  by (cases "fst e") (auto simp: escape_entry_def)

lemma escapeRule_set:
  assumes "escape_entry e" and "fst e = [c]"
  shows "set (escapeRule e s) = (set s - {c}) \<union> (if c \<in> set s then set (snd e) else {})"
  using assms by (cases e) (simp add: escapeRule_def ReplaceAll_single_set)

lemma escapeRule_length:
  assumes "escape_entry e"
  shows "length s \<le> length (escapeRule e s)"
proof -
  from entry_key [OF assms] obtain c where "fst e = [c]" ..
  moreover from assms have "snd e \<noteq> []" by (auto simp: escape_entry_def)
  ultimately show ?thesis
    by (cases e) (simp add: escapeRule_def ReplaceAll_single_length)
qed

lemma escapeRule_longer:
  assumes "escape_entry e" and "fst e = [c]" and "c \<in> set s"
  shows "length s < length (escapeRule e s)"
  using assms by (cases e) (simp add: escapeRule_def escape_entry_def ReplaceAll_single_longer)

lemma fold_escape_length:
  "\<forall>e \<in> set rs. escape_entry e \<Longrightarrow> length s \<le> length (fold escapeRule rs s)"
proof (induction rs arbitrary: s)
  case Nil
  then show ?case by simp
next
  case (Cons e rs)
  have "length s \<le> length (escapeRule e s)" using Cons.prems by (simp add: escapeRule_length)
  also have "\<dots> \<le> length (fold escapeRule rs (escapeRule e s))" using Cons by simp
  finally show ?case by simp
qed

text \<open>Once a backslash is in the text, or a key that is still to be visited, the
  escaped text has a backslash.\<close>

lemma fold_escape_backslash:
  assumes "\<forall>e \<in> set rs. escape_entry e"
    and "backslash \<in> set s \<or> (\<exists>e \<in> set rs. set (fst e) \<subseteq> set s)"
  shows "backslash \<in> set (fold escapeRule rs s)"
  using assms
proof (induction rs arbitrary: s)
  case Nil
  then show ?case by simp
next
  case (Cons e rs)
  from Cons.prems(1) have e: "escape_entry e" by simp
  from entry_key [OF e] obtain c where c: "fst e = [c]" ..
  from e have bs: "backslash \<in> set (snd e)" by (simp add: escape_entry_def)
  note st = escapeRule_set [OF e c, of s]
  have "backslash \<in> set (escapeRule e s) \<or> (\<exists>e' \<in> set rs. set (fst e') \<subseteq> set (escapeRule e s))"
  proof (cases "c \<in> set s")
    case True
    with st bs show ?thesis by auto
  next
    case False
    with st have "set (escapeRule e s) = set s" by auto
    with Cons.prems(2) False c show ?thesis by auto
  qed
  with Cons.IH [of "escapeRule e s"] Cons.prems(1) show ?case by simp
qed

lemma fold_escape_no_circumflex:
  assumes "\<forall>e \<in> set rs. escape_entry e"
    and "of_char CHR ''^'' \<notin> set s \<or> (\<exists>e \<in> set rs. fst e = [of_char CHR ''^''])"
  shows "of_char CHR ''^'' \<notin> set (fold escapeRule rs s)"
  using assms
proof (induction rs arbitrary: s)
  case Nil
  then show ?case by simp
next
  case (Cons e rs)
  from Cons.prems(1) have e: "escape_entry e" by simp
  from entry_key [OF e] obtain c where c: "fst e = [c]" ..
  from e have nh: "of_char CHR ''^'' \<notin> set (snd e)" by (simp add: escape_entry_def)
  note st = escapeRule_set [OF e c, of s]
  have "of_char CHR ''^'' \<notin> set (escapeRule e s) \<or> (\<exists>e' \<in> set rs. fst e' = [of_char CHR ''^''])"
  proof (cases "of_char CHR ''^'' \<in> set s")
    case False
    with st nh show ?thesis by (auto split: if_splits)
  next
    case True
    with Cons.prems(2) have "fst e = [of_char CHR ''^''] \<or> (\<exists>e' \<in> set rs. fst e' = [of_char CHR ''^''])"
      by auto
    then show ?thesis
    proof
      assume "fst e = [of_char CHR ''^'']"
      with c have "c = of_char CHR ''^''" by simp
      with st nh show ?thesis by (auto split: if_splits)
    qed simp
  qed
  with Cons.IH [of "escapeRule e s"] Cons.prems(1) show ?case by simp
qed

lemma fold_escape_longer:
  assumes "\<forall>e \<in> set rs. escape_entry e"
    and "c \<in> set s" and "\<exists>e \<in> set rs. fst e = [c]"
  shows "length s < length (fold escapeRule rs s)"
  using assms
proof (induction rs arbitrary: s)
  case Nil
  then show ?case by simp
next
  case (Cons e rs)
  from Cons.prems(1) have e: "escape_entry e" and rs: "\<forall>e \<in> set rs. escape_entry e" by simp_all
  show ?case
  proof (cases "fst e = [c]")
    case True
    from escapeRule_longer [OF e True Cons.prems(2)]
      fold_escape_length [OF rs, of "escapeRule e s"]
    show ?thesis by simp
  next
    case False
    from entry_key [OF e] obtain d where d: "fst e = [d]" ..
    with False have "d \<noteq> c" by simp
    with escapeRule_set [OF e d, of s] Cons.prems(2) have "c \<in> set (escapeRule e s)" by auto
    moreover from False Cons.prems(3) have "\<exists>e \<in> set rs. fst e = [c]" by auto
    ultimately have "length (escapeRule e s) < length (fold escapeRule rs (escapeRule e s))"
      using Cons.IH rs by blast
    with escapeRule_length [OF e, of s] show ?thesis by simp
  qed
qed

lemma escaped_has_backslash:
  assumes "iteration_of specialChars order"
    and "\<exists>(char, replacement) \<in> set specialChars. strings_Contains line char"
  shows "strings_Contains (escapeSpecialChars order line) [backslash]"
proof -
  have so: "set order = set specialChars" using assms(1) by (rule iteration_set)
  with specialChars_entries have en: "\<forall>e \<in> set order. escape_entry e" by simp
  from assms(2) obtain char replacement
    where m: "(char, replacement) \<in> set specialChars" and "strings_Contains line char"
    by auto
  then have "set (fst (char, replacement)) \<subseteq> set line" by (simp add: Contains_set)
  with m so have "\<exists>e \<in> set order. set (fst e) \<subseteq> set line" by blast
  with en have "backslash \<in> set (fold escapeRule order line)"
    by (intro fold_escape_backslash) auto
  then show ?thesis by (simp add: escapeSpecialChars_fold Contains_single)
qed

lemma display_when_backslash:
  "strings_Contains escaped [backslash] \<Longrightarrow> isMathExpression isDigit escaped"
  by (simp add: isMathExpression_def)

section \<open>Escaping a text without special characters\<close>

text \<open>
  C9. A text that contains none of the ten keys of the escape table is returned
  unchanged by \<open>escapeSpecialChars\<close>, whatever the order in which the map is visited.
\<close>

theorem escape_identity_without_special:
  assumes "iteration_of specialChars order"
    and "\<forall>(char, replacement) \<in> set specialChars. \<not> strings_Contains s char"
  shows "escapeSpecialChars order s = s"
proof -
  from assms(1) have "set order = set specialChars"
    unfolding iteration_of_def by (rule mset_eq_setD)
  with assms(2) have "\<And>r. r \<in> set order \<Longrightarrow>
      (\<lambda>(char, replacement) result. strings_ReplaceAll result char replacement) r s = s"
    by (auto simp: ReplaceAll_absent)
  then show ?thesis
    unfolding escapeSpecialChars_def by (rule fold_fixed)
qed

theorem escape_identity_without_special_witness:
  "iteration_of specialChars (rev specialChars) \<and>
   \<not> (\<exists>(char, replacement) \<in> set specialChars. strings_Contains (str ''x = 5'') char) \<and>
   escapeSpecialChars (rev specialChars) (str ''x = 5'') = str ''x = 5''"
proof -
  have a: "iteration_of specialChars (rev specialChars)"
    by (simp add: iteration_of_def)
  have b: "\<forall>(char, replacement) \<in> set specialChars. \<not> strings_Contains (str ''x = 5'') char"
    by (simp add: specialChars_def str_def backslash_def)
  from a b escape_identity_without_special [OF a b] show ?thesis by auto
qed

section \<open>Escaping a single special character\<close>

lemma fold_escape_untouched:
  assumes "\<forall>y \<in> set ys. escape_entry y \<and> fst y \<noteq> [a]"
  shows "fold escapeRule ys [a] = [a]"
proof (rule fold_fixed)
  fix y assume "y \<in> set ys"
  with assms have e: "escape_entry y" and n: "fst y \<noteq> [a]" by auto
  from entry_key [OF e] obtain c where c: "fst y = [c]" ..
  with n have "\<not> strings_Contains [a] (fst y)" by simp
  then show "escapeRule y [a] = [a]"
    by (cases y) (simp add: escapeRule_def ReplaceAll_absent)
qed

text \<open>When the entry of \<open>a\<close> is visited before the entry of a code point \<open>b\<close> of its
  replacement, the escaped form of the one-character text \<open>a\<close> is longer than that
  replacement.\<close>

lemma visited_later_re_escapes:
  assumes en: "\<forall>y \<in> set (ys @ e # zs). escape_entry y"
    and key: "fst e = [a]" and before: "\<forall>y \<in> set ys. fst y \<noteq> [a]"
    and later: "\<exists>e' \<in> set zs. fst e' = [b]" and b: "b \<in> set (snd e)"
  shows "length (snd e) < length (fold escapeRule (ys @ e # zs) [a])"
proof -
  from en before have "fold escapeRule ys [a] = [a]"
    by (intro fold_escape_untouched) auto
  moreover from key have "escapeRule e [a] = snd e"
    by (cases e) (simp add: escapeRule_def ReplaceAll_single)
  ultimately have "fold escapeRule (ys @ e # zs) [a] = fold escapeRule zs (snd e)"
    by simp
  moreover from en have "\<forall>y \<in> set zs. escape_entry y" by simp
  then have "length (snd e) < length (fold escapeRule zs (snd e))"
    using b later by (rule fold_escape_longer)
  ultimately show ?thesis by simp
qed

lemma specialChars_brace:
  "e \<in> set specialChars \<Longrightarrow> fst e = str ''{'' \<Longrightarrow> snd e = backslash # str ''{''"
  by (auto simp: specialChars_def str_def backslash_def)

lemma specialChars_backslash:
  "e \<in> set specialChars \<Longrightarrow> fst e = [backslash] \<Longrightarrow> snd e = backslash # str ''textbackslash{}''"
  by (auto simp: specialChars_def str_def backslash_def)

text \<open>
  C2. The claim asks that every key of the escape table, alone on a line, comes out as
  exactly its replacement. No order of the map loop does that: the entries are applied
  one after the other to the text already rewritten, so whichever of the entries of the
  opening brace and of the backslash is visited first has its replacement escaped again
  by the other. For every order, the line \<open>{\<close> or the line of one backslash is not
  mapped to its replacement.
\<close>

theorem brace_or_backslash_re_escaped:
  assumes "iteration_of specialChars order"
  shows "\<not> (escapeSpecialChars order (str ''{'') = backslash # str ''{'' \<and>
            escapeSpecialChars order [backslash] = backslash # str ''textbackslash{}'')"
proof -
  let ?P = "\<lambda>e. fst e = str ''{'' \<or> fst e = [backslash]"
  have so: "set order = set specialChars" using assms by (rule iteration_set)
  with specialChars_entries have en: "\<forall>e \<in> set order. escape_entry e" by simp
  have br: "(str ''{'', backslash # str ''{'') \<in> set order"
    and bk: "([backslash], backslash # str ''textbackslash{}'') \<in> set order"
    unfolding so by (simp_all add: specialChars_def)
  from br have "\<exists>e \<in> set order. ?P e" by force
  then obtain ys e zs where sp: "order = ys @ e # zs" and pe: "?P e"
    and first: "\<forall>y \<in> set ys. \<not> ?P y"
    by (auto dest!: split_list_first_prop)
  have e_in: "e \<in> set specialChars" using sp so by auto
  have ne: "str ''{'' \<noteq> [backslash]" by (simp add: str_def backslash_def)
  from pe show ?thesis
  proof
    assume k: "fst e = str ''{''"
    have k1: "fst e = [of_char CHR ''{'']" using k by (simp add: str_def)
    have v: "snd e = backslash # str ''{''" using e_in k by (rule specialChars_brace)
    from bk sp first k ne have "\<exists>e' \<in> set zs. fst e' = [backslash]" by force
    moreover have "\<forall>y \<in> set ys. fst y \<noteq> [of_char CHR ''{'']"
      using first by (simp add: str_def)
    moreover have "backslash \<in> set (snd e)" using v by simp
    ultimately have "length (snd e) < length (fold escapeRule (ys @ e # zs) [of_char CHR ''{''])"
      using en k1 unfolding sp by (intro visited_later_re_escapes) auto
    then have "escapeSpecialChars order (str ''{'') \<noteq> snd e"
      by (auto simp: escapeSpecialChars_fold sp str_def)
    with v show ?thesis by simp
  next
    assume k: "fst e = [backslash]"
    have v: "snd e = backslash # str ''textbackslash{}''"
      using e_in k by (rule specialChars_backslash)
    from br sp first k ne have "\<exists>e' \<in> set zs. fst e' = [of_char CHR ''{'']"
      by (force simp: str_def)
    moreover have "\<forall>y \<in> set ys. fst y \<noteq> [backslash]" using first by simp
    moreover have "of_char CHR ''{'' \<in> set (snd e)" using v by (simp add: str_def)
    ultimately have "length (snd e) < length (fold escapeRule (ys @ e # zs) [backslash])"
      using en k unfolding sp by (intro visited_later_re_escapes) auto
    then have "escapeSpecialChars order [backslash] \<noteq> snd e"
      by (auto simp: escapeSpecialChars_fold sp)
    with v show ?thesis by simp
  qed
qed

theorem brace_or_backslash_re_escaped_witness:
  "iteration_of specialChars specialChars \<and>
   escapeSpecialChars specialChars (str ''{'') = backslash # str ''textbackslash{}{'' \<and>
   \<not> (escapeSpecialChars specialChars (str ''{'') = backslash # str ''{'' \<and>
      escapeSpecialChars specialChars [backslash] = backslash # str ''textbackslash{}'')"
proof -
  have a: "iteration_of specialChars specialChars" by (simp add: iteration_of_def)
  have b: "escapeSpecialChars specialChars (str ''{'') = backslash # str ''textbackslash{}{''"
    by code_simp
  from a b brace_or_backslash_re_escaped [OF a] show ?thesis by blast
qed

section \<open>The output depends on the order of the map loop\<close>

text \<open>
  C3. Two runs of \<open>ConvertToLatex\<close> on the same text need not agree: the loop of
  \<open>escapeSpecialChars\<close> ranges over a Go map, and for the text \<open>&\<close> the order of the
  map literal and the reverse order give different outputs.
\<close>

theorem output_depends_on_map_order:
  "map_orders (\<lambda>k. (specialChars, mathFunctions)) \<and>
   map_orders (\<lambda>k. (rev specialChars, mathFunctions)) \<and>
   ConvertToLatex isDigit (\<lambda>k. (specialChars, mathFunctions)) (str ''&'') =
     backslash # str ''[ '' @ backslash # str ''textbackslash{}& '' @ backslash # str '']'' \<and>
   ConvertToLatex isDigit (\<lambda>k. (rev specialChars, mathFunctions)) (str ''&'') =
     backslash # str ''[ '' @ backslash # str ''& '' @ backslash # str '']'' \<and>
   ConvertToLatex isDigit (\<lambda>k. (specialChars, mathFunctions)) (str ''&'') \<noteq>
     ConvertToLatex isDigit (\<lambda>k. (rev specialChars, mathFunctions)) (str ''&'')"
proof -
  have "map_orders (\<lambda>k. (specialChars, mathFunctions))"
    and "map_orders (\<lambda>k. (rev specialChars, mathFunctions))"
    by (simp_all add: map_orders_def iteration_of_def)
  moreover have "ConvertToLatex isDigit (\<lambda>k. (specialChars, mathFunctions)) (str ''&'') =
     backslash # str ''[ '' @ backslash # str ''textbackslash{}& '' @ backslash # str '']''"
    by code_simp
  moreover have "ConvertToLatex isDigit (\<lambda>k. (rev specialChars, mathFunctions)) (str ''&'') =
     backslash # str ''[ '' @ backslash # str ''& '' @ backslash # str '']''"
    by code_simp
  moreover have "backslash # str ''[ '' @ backslash # str ''textbackslash{}& '' @ backslash # str '']''
      \<noteq> backslash # str ''[ '' @ backslash # str ''& '' @ backslash # str '']''"
    by (simp add: str_def)
  ultimately show ?thesis by simp
qed

section \<open>Blank lines\<close>

lemma TrimSpace_blank: "\<forall>c \<in> set l. unicode_IsSpace c \<Longrightarrow> strings_TrimSpace l = []"
  by (auto simp: strings_TrimSpace_def dest: set_dropWhileD)

lemma latexLines_blank:
  "\<forall>l \<in> set ls. \<forall>c \<in> set l. unicode_IsSpace c \<Longrightarrow> latexLines isDigit orders k ls = []"
  by (induction ls) (simp_all add: TrimSpace_blank)

lemma latexLines_append:
  "latexLines isDigit orders k (xs @ ys) =
     latexLines isDigit orders k xs @
     latexLines isDigit orders (k + length (latexLines isDigit orders k xs)) ys"
  by (induction xs arbitrary: k) (simp_all add: Let_def)

text \<open>
  C8. When every line of the text (the pieces between line feeds) holds only white space,
  which includes the empty text, \<open>ConvertToLatex\<close> returns the empty string. In general a
  line of white space is dropped by the loop: the lines produced are those produced
  without it.
\<close>

theorem blank_lines_dropped:
  "((\<forall>l \<in> set (strings_Split text [linefeed]). \<forall>c \<in> set l. unicode_IsSpace c) \<longrightarrow>
      ConvertToLatex isDigit orders text = []) \<and>
   ((\<forall>c \<in> set ws. unicode_IsSpace c) \<longrightarrow>
      latexLines isDigit orders k (before @ ws # after) =
        latexLines isDigit orders k (before @ after))"
proof (intro conjI impI)
  assume "\<forall>l \<in> set (strings_Split text [linefeed]). \<forall>c \<in> set l. unicode_IsSpace c"
  then have "latexLines isDigit orders 0 (strings_Split text [linefeed]) = []"
    by (rule latexLines_blank)
  then show "ConvertToLatex isDigit orders text = []"
    by (simp add: ConvertToLatex_def)
next
  assume "\<forall>c \<in> set ws. unicode_IsSpace c"
  then have "strings_TrimSpace ws = []" by (rule TrimSpace_blank)
  then show "latexLines isDigit orders k (before @ ws # after) =
      latexLines isDigit orders k (before @ after)"
    by (simp add: latexLines_append)
qed

theorem blank_lines_dropped_witness:
  "list_all (\<lambda>l. list_all unicode_IsSpace l)
     (strings_Split (str ''  '' @ linefeed # 9 # linefeed # str '' '') [linefeed]) \<and>
   length (strings_Split (str ''  '' @ linefeed # 9 # linefeed # str '' '') [linefeed]) = 3 \<and>
   ConvertToLatex perl_d (\<lambda>k. (specialChars, mathFunctions))
     (str ''  '' @ linefeed # 9 # linefeed # str '' '') = [] \<and>
   list_all unicode_IsSpace [32, 160] \<and>
   latexLines perl_d (\<lambda>k. (specialChars, mathFunctions)) 0 [str ''a'', [32, 160], str ''b''] =
     latexLines perl_d (\<lambda>k. (specialChars, mathFunctions)) 0 [str ''a'', str ''b''] \<and>
   latexLines perl_d (\<lambda>k. (specialChars, mathFunctions)) 0 [str ''a'', str ''b''] =
     [str ''a'', str ''b'']"
proof -
  let ?t = "str ''  '' @ linefeed # 9 # linefeed # str '' ''"
  let ?o = "\<lambda>k::nat. (specialChars, mathFunctions)"
  have a: "list_all (\<lambda>l. list_all unicode_IsSpace l) (strings_Split ?t [linefeed])"
    by code_simp
  have b: "length (strings_Split ?t [linefeed]) = 3" by code_simp
  have c: "list_all unicode_IsSpace [32, 160]" by code_simp
  have d: "latexLines perl_d ?o 0 [str ''a'', str ''b''] = [str ''a'', str ''b'']"
    by code_simp
  from a have a': "\<forall>l \<in> set (strings_Split ?t [linefeed]). \<forall>c \<in> set l. unicode_IsSpace c"
    by (simp add: list_all_iff)
  from c have c': "\<forall>c \<in> set [32, 160]. unicode_IsSpace c" by (simp add: list_all_iff)
  from blank_lines_dropped [of ?t perl_d ?o "[32, 160]" 0 "[str ''a'']" "[str ''b'']"] a' c'
  have "ConvertToLatex perl_d ?o ?t = []"
    and "latexLines perl_d ?o 0 ([str ''a''] @ [32, 160] # [str ''b'']) =
         latexLines perl_d ?o 0 ([str ''a''] @ [str ''b''])"
    by blast+
  with a b c d show ?thesis by simp
qed

section \<open>Lines with a special character\<close>

text \<open>
  C5. A trimmed, non-empty line that contains one of the ten keys of \<open>specialChars\<close> is
  display math: in every order of the map loop its escaped form has a backslash, so
  \<open>isMathExpression\<close> holds of it and the loop emits it between \<open>\[\<close> and \<open>\]\<close>, never
  as prose or inline math.
\<close>

theorem special_line_is_display_math:
  assumes "map_orders orders"
    and "strings_TrimSpace line = line" and "line \<noteq> []"
    and "\<exists>(char, replacement) \<in> set specialChars. strings_Contains line char"
  shows "isMathExpression isDigit (escapeSpecialChars (fst (orders k)) line) \<and>
         latexLines isDigit orders k (line # lines) =
           displayMath (processMathExpressions (snd (orders k))
                          (escapeSpecialChars (fst (orders k)) line))
             # latexLines isDigit orders (Suc k) lines"
proof -
  from assms(1) have "iteration_of specialChars (fst (orders k))"
    by (simp add: map_orders_def)
  then have "strings_Contains (escapeSpecialChars (fst (orders k)) line) [backslash]"
    using assms(4) by (rule escaped_has_backslash)
  then have "isMathExpression isDigit (escapeSpecialChars (fst (orders k)) line)"
    by (rule display_when_backslash)
  with assms(2,3) show ?thesis by (simp add: convertLine_def)
qed

theorem special_line_is_display_math_witness:
  "map_orders (\<lambda>k. (rev specialChars, rev mathFunctions)) \<and>
   strings_TrimSpace (str ''50% of x'') = str ''50% of x'' \<and> str ''50% of x'' \<noteq> [] \<and>
   (\<exists>(char, replacement) \<in> set specialChars. strings_Contains (str ''50% of x'') char) \<and>
   isMathExpression perl_d (escapeSpecialChars (rev specialChars) (str ''50% of x'')) \<and>
   latexLines perl_d (\<lambda>k. (rev specialChars, rev mathFunctions)) 0 [str ''50% of x''] =
     [backslash # str ''[ 50'' @ backslash # str ''% of x '' @ backslash # str '']'']"
proof -
  let ?o = "\<lambda>k::nat. (rev specialChars, rev mathFunctions)"
  have a: "map_orders ?o" by (simp add: map_orders_def iteration_of_def)
  have b: "strings_TrimSpace (str ''50% of x'') = str ''50% of x''" by code_simp
  have c: "str ''50% of x'' \<noteq> []" by (simp add: str_def)
  have "list_ex (\<lambda>(char, replacement). strings_Contains (str ''50% of x'') char) specialChars"
    by code_simp
  then have d: "\<exists>(char, replacement) \<in> set specialChars. strings_Contains (str ''50% of x'') char"
    by (simp add: list_ex_iff)
  have e: "displayMath (processMathExpressions (rev mathFunctions)
              (escapeSpecialChars (rev specialChars) (str ''50% of x''))) =
           backslash # str ''[ 50'' @ backslash # str ''% of x '' @ backslash # str '']''"
    by code_simp
  from special_line_is_display_math [OF a b c d, of perl_d 0 "[]"] a b c d e
  show ?thesis by simp
qed

section \<open>Facts about package regexp\<close>

lemma runs_sound:
  "(l', r', cs') \<in> set (runs p l r cs) \<Longrightarrow> \<exists>u. r = u @ r' \<and> l' = rev u @ l \<and> cs' = cs"
proof (induction r arbitrary: l)
  case Nil
  then show ?case by simp
next
  case (Cons x xs)
  from Cons.prems consider
    (more) "p x" and "(l', r', cs') \<in> set (runs p (x # l) xs cs)"
    | (stop) "l' = l" and "r' = x # xs" and "cs' = cs"
    by (auto split: if_splits)
  then show ?case
  proof cases
    case more
    from Cons.IH [OF more(2)] obtain u where "xs = u @ r'" "l' = rev u @ x # l" "cs' = cs"
      by blast
    then have "x # xs = (x # u) @ r' \<and> l' = rev (x # u) @ l \<and> cs' = cs" by simp
    then show ?thesis by blast
  next
    case stop
    then show ?thesis by simp
  qed
qed

text \<open>A thread that leaves a pattern has read a piece \<open>u\<close> of the text, and \<open>u\<close> holds
  every literal the pattern cannot match without.\<close>

lemma step_sound:
  "(l', r', cs') \<in> set (step re (l, r, cs)) \<Longrightarrow>
     \<exists>u. r = u @ r' \<and> l' = rev u @ l \<and> (needs re c \<longrightarrow> c \<in> set u)"
proof (induction re arbitrary: l r cs l' r' cs')
  case Empty
  then show ?case by simp
next
  case (Lit a)
  then show ?case by (cases r) (auto split: if_splits)
next
  case (Class p)
  then show ?case by (cases r) (auto split: if_splits)
next
  case (Plus p)
  show ?case
  proof (cases r)
    case Nil
    with Plus show ?thesis by simp
  next
    case (Cons x xs)
    with Plus have "(l', r', cs') \<in> set (runs p (x # l) xs cs)" by (auto split: if_splits)
    from runs_sound [OF this] obtain u where "xs = u @ r'" "l' = rev u @ x # l" by blast
    with Cons have "r = (x # u) @ r' \<and> l' = rev (x # u) @ l" by simp
    then show ?thesis by (intro exI [of _ "x # u"]) simp
  qed
next
  case (Star p)
  then have "(l', r', cs') \<in> set (runs p l r cs)" by simp
  from runs_sound [OF this] show ?case by auto
next
  case (Seq a b)
  from Seq.prems obtain l1 r1 cs1 where
    a: "(l1, r1, cs1) \<in> set (step a (l, r, cs))" and b: "(l', r', cs') \<in> set (step b (l1, r1, cs1))"
    by auto
  from Seq.IH(1) [OF a] obtain u1 where
    u1: "r = u1 @ r1" "l1 = rev u1 @ l" "needs a c \<longrightarrow> c \<in> set u1" by blast
  from Seq.IH(2) [OF b] obtain u2 where
    u2: "r1 = u2 @ r'" "l' = rev u2 @ l1" "needs b c \<longrightarrow> c \<in> set u2" by blast
  from u1 u2 have "r = (u1 @ u2) @ r' \<and> l' = rev (u1 @ u2) @ l \<and>
      (needs (Seq a b) c \<longrightarrow> c \<in> set (u1 @ u2))" by auto
  then show ?case by blast
next
  case (Alt a b)
  from Alt.prems have "(l', r', cs') \<in> set (step a (l, r, cs)) \<or> (l', r', cs') \<in> set (step b (l, r, cs))"
    by simp
  then show ?case
  proof
    assume "(l', r', cs') \<in> set (step a (l, r, cs))"
    from Alt.IH(1) [OF this] show ?thesis by auto
  next
    assume "(l', r', cs') \<in> set (step b (l, r, cs))"
    from Alt.IH(2) [OF this] show ?thesis by auto
  qed
next
  case (Group n a)
  from Group.prems obtain cs1 where "(l', r', cs1) \<in> set (step a (l, r, cs))" by auto
  from Group.IH [OF this] show ?case by simp
next
  case WordBoundary
  then show ?case by (auto split: if_splits)
next
  case BeginText
  then show ?case by (auto split: if_splits)
next
  case EndText
  then show ?case by (auto split: if_splits)
qed

lemma step_rest:
  assumes "(l', r', cs') \<in> set (step re (l, r, cs))"
  shows "set r' \<subseteq> set r" and "length r' \<le> length r"
proof -
  from step_sound [OF assms, of 0] obtain u where "r = u @ r'" by blast
  then show "set r' \<subseteq> set r" and "length r' \<le> length r" by auto
qed

lemma step_needs:
  assumes "t \<in> set (step re (l, r, cs))" and "needs re c"
  shows "c \<in> set r"
proof -
  obtain l' r' cs' where "t = (l', r', cs')" by (cases t) auto
  with assms(1) have "(l', r', cs') \<in> set (step re (l, r, cs))" by simp
  from step_sound [OF this, of c] assms(2) obtain u where "r = u @ r'" and "c \<in> set u"
    by blast
  then show ?thesis by simp
qed

text \<open>A pattern with such a literal has no empty match; this holds of every pattern
  that \<open>processMathExpressions\<close> replaces, so \<open>replaceFrom\<close> never meets an empty match
  there.\<close>

lemma step_progress:
  assumes "(l', r', cs') \<in> set (step re (l, r, cs))" and "needs re c"
  shows "length r' < length r"
proof -
  from step_sound [OF assms(1), of c] assms(2) obtain u where "r = u @ r'" and "c \<in> set u"
    by blast
  then show ?thesis by (cases u) auto
qed

lemma replaced_patterns_need_a_literal:
  "needs (functionPattern (x # funcName)) x"
  "needs fractionPattern (of_char CHR ''/'')"
  "needs exponentPattern (of_char CHR ''^'')"
  "needs sqrtPattern (of_char CHR ''('')"
  "needs integralPattern (of_char CHR ''^'')"
  by (simp_all add: functionPattern_def fractionPattern_def exponentPattern_def
        sqrtPattern_def integralPattern_def)

text \<open>Every submatch a thread records is a piece of the text it was read from.\<close>

lemma step_captures:
  "(l', r', cs') \<in> set (step re (l, r, cs)) \<Longrightarrow>
     \<forall>(n, t) \<in> set cs'. (n, t) \<in> set cs \<or> set t \<subseteq> set r"
proof (induction re arbitrary: l r cs l' r' cs')
  case (Plus p)
  show ?case
  proof (cases r)
    case Nil
    with Plus show ?thesis by simp
  next
    case (Cons x xs)
    with Plus have "(l', r', cs') \<in> set (runs p (x # l) xs cs)" by (auto split: if_splits)
    from runs_sound [OF this] show ?thesis by auto
  qed
next
  case (Star p)
  then have "(l', r', cs') \<in> set (runs p l r cs)" by simp
  from runs_sound [OF this] show ?case by auto
next
  case (Seq a b)
  from Seq.prems obtain l1 r1 cs1 where
    a: "(l1, r1, cs1) \<in> set (step a (l, r, cs))" and b: "(l', r', cs') \<in> set (step b (l1, r1, cs1))"
    by auto
  from step_rest(1) [OF a] Seq.IH(1) [OF a] Seq.IH(2) [OF b] show ?case by fastforce
next
  case (Alt a b)
  from Alt.prems have "(l', r', cs') \<in> set (step a (l, r, cs)) \<or> (l', r', cs') \<in> set (step b (l, r, cs))"
    by simp
  then show ?case using Alt.IH by blast
next
  case (Group n a)
  from Group.prems obtain cs1 where a: "(l', r', cs1) \<in> set (step a (l, r, cs))"
    and c: "cs' = (n, take (length r - length r') r) # cs1" by auto
  have "set (take (length r - length r') r) \<subseteq> set r" by (rule set_take_subset)
  with Group.IH [OF a] c show ?case by auto
qed (auto split: if_splits list.splits)

lemma matchFrom_needs: "matchFrom re l r \<Longrightarrow> needs re c \<Longrightarrow> c \<in> set r"
proof (induction r arbitrary: l)
  case Nil
  then obtain t where "t \<in> set (step re (l, [], []))" by (cases "step re (l, [], [])") auto
  then show ?case using Nil.prems(2) by (rule step_needs)
next
  case (Cons x xs)
  show ?case
  proof (cases "step re (l, x # xs, []) = []")
    case True
    with Cons show ?thesis by simp
  next
    case False
    then obtain t where "t \<in> set (step re (l, x # xs, []))"
      by (cases "step re (l, x # xs, [])") auto
    then show ?thesis using Cons.prems(2) by (rule step_needs)
  qed
qed

lemma matchFrom_Class: "\<exists>x \<in> set r. p x \<Longrightarrow> matchFrom (Class p) l r"
  by (induction r arbitrary: l) auto

section \<open>The inline branch\<close>

lemma anyMatch_iff: "anyMatch ps text \<longleftrightarrow> (\<exists>p \<in> set ps. regexp_MatchString p text)"
  by (induction ps) auto

lemma inlinePatterns_need_equals: "\<forall>p \<in> set inlinePatterns. needs p (of_char CHR ''='')"
  by (simp add: inlinePatterns_def)

lemma equals_sign_is_math:
  assumes "of_char CHR ''='' \<in> set text"
  shows "isMathExpression isDigit text"
proof -
  have "one_of ''=+-*/^()[]'' (of_char CHR ''='')" by (simp add: one_of_def str_def)
  with assms have "regexp_MatchString (Class (one_of ''=+-*/^()[]'')) text"
    unfolding regexp_MatchString_def by (intro matchFrom_Class) blast
  then have "anyMatch mathPatterns text" by (simp add: mathPatterns_def)
  then show ?thesis by (simp add: isMathExpression_def split: prod.splits)
qed

lemma inline_is_display: "isInlineMath text \<Longrightarrow> isMathExpression isDigit text"
proof -
  assume "isInlineMath text"
  then obtain p where "p \<in> set inlinePatterns" and "regexp_MatchString p text"
    by (auto simp: isInlineMath_def anyMatch_iff)
  with inlinePatterns_need_equals have "of_char CHR ''='' \<in> set text"
    by (auto simp: regexp_MatchString_def dest: matchFrom_needs)
  then show ?thesis by (rule equals_sign_is_math)
qed

lemma convertLine_cases:
  "convertLine isDigit escOrder funOrder line =
     (if isMathExpression isDigit (escapeSpecialChars escOrder line)
      then displayMath (processMathExpressions funOrder (escapeSpecialChars escOrder line))
      else escapeSpecialChars escOrder line)"
  using inline_is_display [of "escapeSpecialChars escOrder line" isDigit]
  by (auto simp: convertLine_def Let_def)

lemma convertLine_not_inline:
  "convertLine isDigit escOrder funOrder line \<noteq> inlineMath body"
proof (cases "isMathExpression isDigit (escapeSpecialChars escOrder line)")
  case True
  then show ?thesis
    by (simp add: convertLine_cases displayMath_def inlineMath_def str_def)
next
  case False
  then have "\<not> strings_Contains (escapeSpecialChars escOrder line) [backslash]"
    by (auto simp: isMathExpression_def)
  then have "backslash \<notin> set (escapeSpecialChars escOrder line)" by (simp add: Contains_single)
  moreover have "backslash \<in> set (inlineMath body)" by (simp add: inlineMath_def)
  ultimately show ?thesis using False by (auto simp: convertLine_cases)
qed

lemma latexLines_not_inline:
  "out \<in> set (latexLines isDigit orders k lines) \<Longrightarrow> out \<noteq> inlineMath body"
  by (induction lines arbitrary: k)
    (auto simp: Let_def convertLine_not_inline convertLine_not_inline [THEN not_sym]
       split: if_splits)

text \<open>
  C6. No line is ever emitted as inline math. Each of the three inline patterns reads an
  equals sign, a text with an equals sign matches the first pattern of \<open>mathPatterns\<close>, and
  \<open>ConvertToLatex\<close> asks \<open>isMathExpression\<close> first: whenever \<open>isInlineMath\<close> holds of the
  escaped line, so does \<open>isMathExpression\<close>, and no line produced by the loop has the form
  \<open>\( body \)\<close>. This holds for every text and every order of the map loops.
\<close>

theorem inline_branch_unreachable:
  "(isInlineMath escapedLine \<longrightarrow> isMathExpression isDigit escapedLine) \<and>
   (\<forall>out \<in> set (latexLines isDigit orders k lines). \<forall>body. out \<noteq> inlineMath body)"
  using inline_is_display latexLines_not_inline by blast

theorem inline_branch_unreachable_witness:
  "isInlineMath (str ''x = 5'') \<and> isMathExpression perl_d (str ''x = 5'') \<and>
   latexLines perl_d (\<lambda>k. (specialChars, mathFunctions)) 0 [str ''x = 5'', str ''a^b = c''] =
     [displayMath (str ''x = 5''),
      displayMath (str ''a'' @ backslash # str ''textbackslash{}textasciicircum{}b = c'')] \<and>
   \<not> (\<exists>out \<in> set (latexLines perl_d (\<lambda>k. (specialChars, mathFunctions)) 0
                    [str ''x = 5'', str ''a^b = c'']). \<exists>body. out = inlineMath body)"
proof -
  have a: "isInlineMath (str ''x = 5'')" by code_simp
  have b: "latexLines perl_d (\<lambda>k. (specialChars, mathFunctions)) 0 [str ''x = 5'', str ''a^b = c''] =
     [displayMath (str ''x = 5''),
      displayMath (str ''a'' @ backslash # str ''textbackslash{}textasciicircum{}b = c'')]"
    by code_simp
  from inline_branch_unreachable [of "str ''x = 5''" perl_d "\<lambda>k. (specialChars, mathFunctions)" 0
      "[str ''x = 5'', str ''a^b = c'']"] a b
  show ?thesis by blast
qed

section \<open>Facts about replacing with package regexp\<close>

lemma replaceFrom_unchanged:
  "needs re c \<Longrightarrow> c \<notin> set r \<Longrightarrow> replaceFrom re repl afterMatch l r = r"
proof (induction r arbitrary: l afterMatch)
  case Nil
  have "step re (l, [], []) = []"
  proof (cases "step re (l, [], [])")
    case (Cons t ts)
    then have "t \<in> set (step re (l, [], []))" by simp
    from step_needs [OF this Nil.prems(1)] show ?thesis by simp
  qed simp
  then show ?case by (simp add: replaceFrom.simps)
next
  case (Cons x xs)
  have "step re (l, x # xs, []) = []"
  proof (cases "step re (l, x # xs, [])")
    case (Cons t ts)
    then have "t \<in> set (step re (l, x # xs, []))" by simp
    from step_needs [OF this Cons.prems(1)] Cons.prems(2) show ?thesis by simp
  qed simp
  moreover have "replaceFrom re repl False (x # l) xs = xs" using Cons by simp
  ultimately show ?case by (simp add: replaceFrom.simps [of re repl afterMatch l "x # xs"])
qed

lemma ReplaceAllString_unchanged:
  "needs re c \<Longrightarrow> c \<notin> set src \<Longrightarrow> regexp_ReplaceAllString re src repl = src"
  by (simp add: regexp_ReplaceAllString_def replaceFrom_unchanged)

lemma expand_set:
  "set (expand repl cs) \<subseteq> set (template_text repl) \<union> (\<Union>(n, t) \<in> set cs. set t)"
proof (induction repl cs rule: expand.induct)
  case (3 n ps cs)
  have "set (case map_of cs n of None \<Rightarrow> [] | Some t \<Rightarrow> t) \<subseteq> (\<Union>(n, t) \<in> set cs. set t)"
  proof (cases "map_of cs n")
    case (Some t)
    then have "(n, t) \<in> set cs" by (rule map_of_SomeD)
    with Some show ?thesis by force
  qed simp
  with 3 show ?case by auto
qed auto

lemma replaceFrom_set:
  "set (replaceFrom re repl afterMatch l r) \<subseteq> set r \<union> set (template_text repl)"
proof (induction "length r" arbitrary: r l afterMatch rule: less_induct)
  case less
  show ?case
  proof (cases "step re (l, r, [])")
    case Nil
    show ?thesis
    proof (cases r)
      case Nil' : Nil
      with Nil show ?thesis by (simp add: replaceFrom.simps [of re repl afterMatch l "[]"])
    next
      case (Cons x xs)
      then have
        "set (replaceFrom re repl False (x # l) xs) \<subseteq> set xs \<union> set (template_text repl)"
        by (intro less) simp
      with Nil Cons show ?thesis
        by (auto simp: replaceFrom.simps [of re repl afterMatch l "x # xs"])
    qed
  next
    case (Cons t others)
    obtain l' r' cs where t: "t = (l', r', cs)" by (cases t) auto
    with Cons have mem: "(l', r', cs) \<in> set (step re (l, r, []))" by simp
    have sub: "set r' \<subseteq> set r" using mem by (rule step_rest)
    have caps: "\<forall>(n, t) \<in> set cs. set t \<subseteq> set r" using step_captures [OF mem] by auto
    have whole: "set (take (length r - length r') r) \<subseteq> set r" by (rule set_take_subset)
    show ?thesis
    proof (cases "length r' < length r")
      case True
      from True have
        "set (replaceFrom re repl True l' r') \<subseteq> set r' \<union> set (template_text repl)"
        by (intro less)
      with sub have
        rec: "set (replaceFrom re repl True l' r') \<subseteq> set r \<union> set (template_text repl)" by auto
      from expand_set [of repl "(0, take (length r - length r') r) # cs"] caps whole
      have "set (expand repl ((0, take (length r - length r') r) # cs))
               \<subseteq> set r \<union> set (template_text repl)" by fastforce
      with rec Cons t True show ?thesis
        by (simp add: replaceFrom.simps [of re repl afterMatch l r])
    next
      case False
      from expand_set [of repl "(0, []) # cs"] caps
      have ex: "set (expand repl ((0, []) # cs)) \<subseteq> set r \<union> set (template_text repl)"
        by fastforce
      show ?thesis
      proof (cases r)
        case Nil
        with ex Cons t False show ?thesis
          by (simp add: replaceFrom.simps [of re repl afterMatch l "[]"])
      next
        case c2: (Cons x xs)
        then have
          "set (replaceFrom re repl False (x # l) xs) \<subseteq> set xs \<union> set (template_text repl)"
          by (intro less) simp
        with ex Cons t False c2 show ?thesis
          by (auto simp: replaceFrom.simps [of re repl afterMatch l "x # xs"])
      qed
    qed
  qed
qed

lemma ReplaceAllString_absent:
  "c \<notin> set src \<Longrightarrow> c \<notin> set (template_text repl) \<Longrightarrow>
     c \<notin> set (regexp_ReplaceAllString re src repl)"
  using replaceFrom_set [of re repl False "[]" src]
  by (auto simp: regexp_ReplaceAllString_def)

section \<open>Facts about processMathExpressions\<close>

lemma replaceFunctions_fixed:
  assumes "\<forall>e \<in> set mathFunctions.
             regexp_ReplaceAllString (functionPattern (fst e)) text [Text (snd e)] = text"
    and "iteration_of mathFunctions order"
  shows "replaceFunctions order text = text"
proof -
  from assms(2) have "set order = set mathFunctions" by (rule iteration_set)
  with assms(1) show ?thesis
    unfolding replaceFunctions_def by (intro fold_fixed) auto
qed

lemma processMath_any_order:
  assumes "\<forall>e \<in> set mathFunctions.
             regexp_ReplaceAllString (functionPattern (fst e)) text [Text (snd e)] = text"
    and "iteration_of mathFunctions order"
  shows "processMathExpressions order text = processMathExpressions mathFunctions text"
proof -
  have "iteration_of mathFunctions mathFunctions" by (simp add: iteration_of_def)
  with assms have "replaceFunctions order text = replaceFunctions mathFunctions text"
    by (simp add: replaceFunctions_fixed)
  then show ?thesis by (simp add: processMathExpressions_def)
qed

lemma replaceFunctions_absent:
  assumes "c \<notin> set src" and "\<forall>e \<in> set order. c \<notin> set (snd e)"
  shows "c \<notin> set (replaceFunctions order src)"
  using assms unfolding replaceFunctions_def
proof (induction order arbitrary: src)
  case Nil
  then show ?case by simp
next
  case (Cons e order)
  obtain funcName latexCmd where e: "e = (funcName, latexCmd)" by (cases e) auto
  with Cons.prems have
    "c \<notin> set (regexp_ReplaceAllString (functionPattern funcName) src [Text latexCmd])"
    by (intro ReplaceAllString_absent) auto
  with Cons e show ?case by simp
qed

lemma processMath_no_circumflex:
  assumes "of_char CHR ''^'' \<notin> set src" and "iteration_of mathFunctions order"
  shows "of_char CHR ''^'' \<notin> set (processMathExpressions order src)"
proof -
  let ?c = "of_char CHR ''^'' :: rune"
  define t1 where "t1 = replaceFunctions order src"
  define t2 where "t2 = regexp_ReplaceAllString fractionPattern t1
                     [Text (backslash # str ''frac{''), Submatch 1, Text (str ''}{''),
                      Submatch 2, Text (str ''}'')]"
  define t3 where "t3 = regexp_ReplaceAllString exponentPattern t2
                     [Submatch 1, Text (str ''^{''), Submatch 2, Text (str ''}'')]"
  define t4 where "t4 = regexp_ReplaceAllString sqrtPattern t3
                     [Text (backslash # str ''sqrt{''), Submatch 1, Text (str ''}'')]"
  define t5 where "t5 = regexp_ReplaceAllString integralPattern t4
                     [Text (backslash # str ''int_{''), Submatch 1, Text (str ''}^{''),
                      Submatch 2, Text (str ''} ''), Submatch 3]"
  have res: "processMathExpressions order src = t5"
    by (simp add: processMathExpressions_def t1_def t2_def t3_def t4_def t5_def)
  from assms(2) have "set order = set mathFunctions" by (rule iteration_set)
  moreover have "\<forall>e \<in> set mathFunctions. ?c \<notin> set (snd e)"
    by (simp add: mathFunctions_def str_def backslash_def)
  ultimately have 1: "?c \<notin> set t1"
    unfolding t1_def using assms(1) by (intro replaceFunctions_absent) auto
  then have 2: "?c \<notin> set t2"
    unfolding t2_def by (rule ReplaceAllString_absent) (simp add: str_def backslash_def)
  have "needs exponentPattern ?c" by (simp add: exponentPattern_def)
  then have "t3 = t2" unfolding t3_def using 2 by (rule ReplaceAllString_unchanged)
  with 2 have 3: "?c \<notin> set t3" by simp
  then have 4: "?c \<notin> set t4"
    unfolding t4_def by (rule ReplaceAllString_absent) (simp add: str_def backslash_def)
  have "needs integralPattern ?c" by (simp add: integralPattern_def)
  then have "t5 = t4" unfolding t5_def using 4 by (rule ReplaceAllString_unchanged)
  with 4 res show ?thesis by simp
qed

section \<open>The line E = mc^2\<close>

lemma single_line:
  assumes "strings_Split src [linefeed] = [line]" and "strings_TrimSpace line = line"
    and "line \<noteq> []"
  shows "ConvertToLatex isDigit orders src =
           convertLine isDigit (fst (orders 0)) (snd (orders 0)) line"
proof -
  from assms(1,3) have "src \<noteq> []"
    by (auto simp: strings_Split_def splitAcc.simps [of _ "[]"])
  with assms show ?thesis by (simp add: ConvertToLatex_def)
qed

text \<open>
  C1. The claim asks that the line \<open>E = mc^2\<close> comes out as display or inline math whose
  body contains \<open>c^{2}\<close>. The line is emitted as display math, but
  \<open>escapeSpecialChars\<close> runs before \<open>processMathExpressions\<close> and replaces the
  circumflex, so the exponent rule finds nothing to rewrite: for every order of the two
  map loops the output is \<open>\[ body \]\<close> with no circumflex in the body, and it does not
  contain \<open>c^{2}\<close>.
\<close>

theorem emc2_exponent_never_rewritten:
  assumes "map_orders orders"
  shows "\<exists>body. ConvertToLatex isDigit orders (str ''E = mc^2'') = displayMath body \<and>
           of_char CHR ''^'' \<notin> set body \<and>
           \<not> strings_Contains (ConvertToLatex isDigit orders (str ''E = mc^2'')) (str ''c^{2}'')"
proof -
  let ?line = "str ''E = mc^2''"
  let ?c = "of_char CHR ''^'' :: rune"
  let ?escaped = "escapeSpecialChars (fst (orders 0)) ?line"
  let ?body = "processMathExpressions (snd (orders 0)) ?escaped"
  from assms have eo: "iteration_of specialChars (fst (orders 0))"
    and fo: "iteration_of mathFunctions (snd (orders 0))"
    by (simp_all add: map_orders_def)
  have sp: "strings_Split ?line [linefeed] = [?line]" by code_simp
  have tr: "strings_TrimSpace ?line = ?line" by code_simp
  have ne: "?line \<noteq> []" by (simp add: str_def)
  have "list_ex (\<lambda>(char, replacement). strings_Contains ?line char) specialChars"
    by code_simp
  then have "\<exists>(char, replacement) \<in> set specialChars. strings_Contains ?line char"
    by (simp add: list_ex_iff)
  with eo have "strings_Contains ?escaped [backslash]" by (rule escaped_has_backslash)
  then have "isMathExpression isDigit ?escaped" by (rule display_when_backslash)
  with single_line [OF sp tr ne] have
    out: "ConvertToLatex isDigit orders ?line = displayMath ?body"
    by (simp add: convertLine_def)
  have so: "set (fst (orders 0)) = set specialChars" using eo by (rule iteration_set)
  have "(str ''^'', backslash # str ''textasciicircum{}'') \<in> set specialChars"
    by (simp add: specialChars_def)
  then have "\<exists>e \<in> set (fst (orders 0)). fst e = [?c]"
    unfolding so by (force simp: str_def)
  moreover from specialChars_entries so have "\<forall>e \<in> set (fst (orders 0)). escape_entry e"
    by simp
  ultimately have "?c \<notin> set ?escaped"
    unfolding escapeSpecialChars_fold by (intro fold_escape_no_circumflex) auto
  then have body: "?c \<notin> set ?body" using fo by (rule processMath_no_circumflex)
  then have "?c \<notin> set (displayMath ?body)"
    by (simp add: displayMath_def str_def backslash_def)
  moreover have "?c \<in> set (str ''c^{2}'')" by (simp add: str_def)
  ultimately have "\<not> strings_Contains (displayMath ?body) (str ''c^{2}'')"
    by (auto dest: Contains_set)
  with out body show ?thesis by auto
qed

theorem emc2_exponent_never_rewritten_witness:
  "map_orders (\<lambda>k. (specialChars, mathFunctions)) \<and>
   ConvertToLatex perl_d (\<lambda>k. (specialChars, mathFunctions)) (str ''E = mc^2'') =
     displayMath (str ''E = mc'' @ backslash # str ''textbackslash{}textasciicircum{}2'') \<and>
   \<not> strings_Contains
        (ConvertToLatex perl_d (\<lambda>k. (specialChars, mathFunctions)) (str ''E = mc^2''))
        (str ''c^{2}'')"
proof -
  have a: "map_orders (\<lambda>k. (specialChars, mathFunctions))"
    by (simp add: map_orders_def iteration_of_def)
  have b: "ConvertToLatex perl_d (\<lambda>k. (specialChars, mathFunctions)) (str ''E = mc^2'') =
     displayMath (str ''E = mc'' @ backslash # str ''textbackslash{}textasciicircum{}2'')"
    by code_simp
  from emc2_exponent_never_rewritten [OF a, of perl_d] a b show ?thesis by blast
qed

section \<open>A bounded integral\<close>

lemma functions_absent_int01:
  "\<forall>e \<in> set mathFunctions.
     regexp_ReplaceAllString (functionPattern (fst e)) (str ''int_0^1 x'') [Text (snd e)] =
       str ''int_0^1 x''"
proof -
  have "list_all (\<lambda>e. regexp_ReplaceAllString (functionPattern (fst e)) (str ''int_0^1 x'')
                        [Text (snd e)] = str ''int_0^1 x'') mathFunctions"
    by code_simp
  then show ?thesis by (simp add: list_all_iff)
qed

text \<open>
  C4. The claim asks that \<open>processMathExpressions\<close> turns \<open>int_0^1 x\<close> into
  \<open>\int_{0}^{1} x\<close>. The integral rule alone does that, but the exponent rule runs
  before it and rewrites \<open>int_0^1\<close> to \<open>int_0^{1}\<close>, which the integral pattern no
  longer matches: for every order of the loop over \<open>mathFunctions\<close> the result is
  \<open>int_0^{1} x\<close>.
\<close>

theorem integral_rule_undone_by_exponent_rule:
  assumes "iteration_of mathFunctions order"
  shows "processMathExpressions order (str ''int_0^1 x'') = str ''int_0^{1} x'' \<and>
         processMathExpressions order (str ''int_0^1 x'') \<noteq> backslash # str ''int_{0}^{1} x'' \<and>
         regexp_ReplaceAllString integralPattern (str ''int_0^1 x'')
           [Text (backslash # str ''int_{''), Submatch 1, Text (str ''}^{''), Submatch 2,
            Text (str ''} ''), Submatch 3] = backslash # str ''int_{0}^{1} x''"
proof -
  have "processMathExpressions mathFunctions (str ''int_0^1 x'') = str ''int_0^{1} x''"
    by code_simp
  with processMath_any_order [OF functions_absent_int01 assms]
  have 1: "processMathExpressions order (str ''int_0^1 x'') = str ''int_0^{1} x''" by simp
  have 2: "str ''int_0^{1} x'' \<noteq> backslash # str ''int_{0}^{1} x''"
    by (simp add: str_def backslash_def)
  have 3: "regexp_ReplaceAllString integralPattern (str ''int_0^1 x'')
           [Text (backslash # str ''int_{''), Submatch 1, Text (str ''}^{''), Submatch 2,
            Text (str ''} ''), Submatch 3] = backslash # str ''int_{0}^{1} x''"
    by code_simp
  from 1 2 3 show ?thesis by simp
qed

theorem integral_rule_undone_by_exponent_rule_witness:
  "iteration_of mathFunctions (rev mathFunctions) \<and>
   processMathExpressions (rev mathFunctions) (str ''int_0^1 x'') = str ''int_0^{1} x''"
proof -
  have a: "iteration_of mathFunctions (rev mathFunctions)" by (simp add: iteration_of_def)
  from integral_rule_undone_by_exponent_rule [OF a] a show ?thesis by simp
qed

section \<open>A fraction\<close>

lemma functions_absent_third:
  "\<forall>e \<in> set mathFunctions.
     regexp_ReplaceAllString (functionPattern (fst e)) (str ''1/3'') [Text (snd e)] = str ''1/3''"
proof -
  have "list_all (\<lambda>e. regexp_ReplaceAllString (functionPattern (fst e)) (str ''1/3'')
                        [Text (snd e)] = str ''1/3'') mathFunctions"
    by code_simp
  then show ?thesis by (simp add: list_all_iff)
qed

text \<open>
  C10. \<open>processMathExpressions\<close> turns \<open>1/3\<close> into \<open>\frac{1}{3}\<close>, the fraction with
  numerator 1 and denominator 3, for every order of the loop over \<open>mathFunctions\<close>.
\<close>

theorem one_third_is_fraction:
  assumes "iteration_of mathFunctions order"
  shows "processMathExpressions order (str ''1/3'') = backslash # str ''frac{1}{3}''"
proof -
  have "processMathExpressions mathFunctions (str ''1/3'') = backslash # str ''frac{1}{3}''"
    by code_simp
  with processMath_any_order [OF functions_absent_third assms] show ?thesis by simp
qed

theorem one_third_is_fraction_witness:
  "iteration_of mathFunctions (rev mathFunctions) \<and>
   processMathExpressions (rev mathFunctions) (str ''1/3'') = backslash # str ''frac{1}{3}''"
proof -
  have a: "iteration_of mathFunctions (rev mathFunctions)" by (simp add: iteration_of_def)
  from one_third_is_fraction [OF a] a show ?thesis by simp
qed

section \<open>The pattern sources compile to the patterns of the model\<close>

lemma class_letters: "in_class False [(97, 122), (65, 90)] = ascii_letter"
  by (auto simp: fun_eq_iff in_class_def ascii_letter_def)

lemma class_ops10:
  "in_class False [(61, 61), (43, 43), (45, 45), (42, 42), (47, 47), (94, 94), (40, 40),
     (41, 41), (91, 91), (93, 93)] = one_of ''=+-*/^()[]''"
  by (auto simp: fun_eq_iff in_class_def one_of_def str_def)

lemma class_ops4: "in_class False [(43, 43), (45, 45), (42, 42), (47, 47)] = one_of ''+-*/''"
  by (auto simp: fun_eq_iff in_class_def one_of_def str_def)

lemma class_xyz: "in_class False [(120, 120), (121, 121), (122, 122)] = one_of ''xyz''"
  by (auto simp: fun_eq_iff in_class_def one_of_def str_def)

lemma class_not_paren: "in_class True [(41, 41)] = none_of '')''"
  by (auto simp: fun_eq_iff in_class_def none_of_def str_def)

lemmas compile_eval =
  compiles_as_def regexp_MustCompile_def scan.simps scanOne_def parseClass_def
  classRanges.simps parseClassChar_def parseEscape_def is_alnum_def perl_d_def
  ascii_letter_def str_def backslash_def Let_def
  class_letters class_ops10 class_ops4 class_xyz class_not_paren

lemma c_fraction: "compiles_as fractionSource fractionPattern"
  by (simp add: fractionSource_def fractionPattern_def compile_eval)

lemma c_exponent: "compiles_as exponentSource exponentPattern"
  by (simp add: exponentSource_def exponentPattern_def compile_eval)

lemma c_sqrt: "compiles_as sqrtSource sqrtPattern"
  by (simp add: sqrtSource_def sqrtPattern_def compile_eval)

lemma c_integral: "compiles_as integralSource integralPattern"
  by (simp add: integralSource_def integralPattern_def compile_eval)

lemma c_math: "list_all2 compiles_as mathPatternSources mathPatterns"
  by (simp add: mathPatternSources_def mathPatterns_def compile_eval)

lemma c_inline: "list_all2 compiles_as inlinePatternSources inlinePatterns"
  by (simp add: inlinePatternSources_def inlinePatterns_def compile_eval)

lemma c_functions:
  "\<forall>e \<in> set mathFunctions. compiles_as (functionSource (fst e)) (functionPattern (fst e))"
  by (simp add: mathFunctions_def functionSource_def functionPattern_def compile_eval)

text \<open>A pattern that does not parse makes \<open>MustCompile\<close> panic: the fraction pattern
  without its last parenthesis.\<close>

lemma MustCompile_can_panic:
  "regexp_MustCompile (str ''('' @ backslash # str ''d+)/('' @ backslash # str ''d+'') =
     Inl MissingParen"
  by (simp add: compile_eval)

section \<open>Patterns with the same matches\<close>

lemma step_Empty: "step Empty = (\<lambda>t. [t])"
  by (rule ext) simp

lemma concat_map_bind:
  "concat (map f (concat (map g zs))) = concat (map (\<lambda>z. concat (map f (g z))) zs)"
  by (induction zs) auto

lemma step_seqs_Cons: "step (seqs (r # rs)) t = concat (map (step (seqs rs)) (step r t))"
  by (cases rs) (simp_all add: step_Empty)

lemma step_seqs_append:
  "step (seqs (xs @ ys)) t = concat (map (step (seqs ys)) (step (seqs xs) t))"
proof (induction xs arbitrary: t)
  case Nil
  then show ?case by simp
next
  case (Cons x xs)
  have "step (seqs ((x # xs) @ ys)) t = concat (map (step (seqs (xs @ ys))) (step x t))"
    by (simp add: step_seqs_Cons del: seqs.simps)
  also have "\<dots> = concat (map (\<lambda>z. concat (map (step (seqs ys)) (step (seqs xs) z))) (step x t))"
  proof -
    have "step (seqs (xs @ ys)) = (\<lambda>z. concat (map (step (seqs ys)) (step (seqs xs) z)))"
      by (rule ext) (rule Cons.IH)
    then show ?thesis by simp
  qed
  also have "\<dots> = concat (map (step (seqs ys)) (concat (map (step (seqs xs)) (step x t))))"
    by (simp add: concat_map_bind)
  also have "\<dots> = concat (map (step (seqs ys)) (step (seqs (x # xs)) t))"
    by (simp add: step_seqs_Cons del: seqs.simps)
  finally show ?case .
qed

lemma step_seq_items: "step (seqs (seq_items re)) t = step re t"
proof (induction re arbitrary: t)
  case (Seq a b)
  from Seq.IH have "step (seqs (seq_items a)) = step a" and "step (seqs (seq_items b)) = step b"
    by auto
  then show ?case by (simp add: step_seqs_append)
next
  case (Group n a)
  obtain l r cs where "t = (l, r, cs)" by (cases t) auto
  with Group show ?case by simp
qed simp_all

lemma same_items: "seq_items a = seq_items b \<Longrightarrow> step a = step b"
  using step_seq_items [of a] step_seq_items [of b] by (intro ext) simp

lemma compiles_as_step:
  "compiles_as src hand \<Longrightarrow> \<exists>re. regexp_MustCompile src = Inr re \<and> step re = step hand"
  by (auto simp: compiles_as_def dest: same_items)

lemma matchFrom_cong: "step a = step b \<Longrightarrow> matchFrom a l r = matchFrom b l r"
  by (induction r arbitrary: l) simp_all

lemma replaceFrom_cong:
  assumes "step a = step b"
  shows "replaceFrom a repl afterMatch l r = replaceFrom b repl afterMatch l r"
proof (induction "length r" arbitrary: r l afterMatch rule: less_induct)
  case less
  have ih: "\<And>r' l' am. length r' < length r \<Longrightarrow>
      replaceFrom a repl am l' r' = replaceFrom b repl am l' r'"
    by (rule less)
  show ?case
  proof (cases "step b (l, r, [])")
    case Nil
    show ?thesis
    proof (cases r)
      case n: Nil
      with Nil assms show ?thesis
        by (simp add: replaceFrom.simps [of a repl afterMatch l "[]"]
            replaceFrom.simps [of b repl afterMatch l "[]"])
    next
      case (Cons x xs)
      then have "replaceFrom a repl False (x # l) xs = replaceFrom b repl False (x # l) xs"
        by (intro ih) simp
      with Nil Cons assms show ?thesis
        by (simp add: replaceFrom.simps [of a repl afterMatch l "x # xs"]
            replaceFrom.simps [of b repl afterMatch l "x # xs"])
    qed
  next
    case (Cons t others)
    obtain l' r' cs where t: "t = (l', r', cs)" by (cases t) auto
    show ?thesis
    proof (cases "length r' < length r")
      case True
      then have "replaceFrom a repl True l' r' = replaceFrom b repl True l' r'" by (rule ih)
      with Cons t True assms show ?thesis
        by (simp add: replaceFrom.simps [of a repl afterMatch l r]
            replaceFrom.simps [of b repl afterMatch l r])
    next
      case False
      show ?thesis
      proof (cases r)
        case Nil
        with Cons t False assms show ?thesis
          by (simp add: replaceFrom.simps [of a repl afterMatch l "[]"]
              replaceFrom.simps [of b repl afterMatch l "[]"])
      next
        case c2: (Cons x xs)
        then have "replaceFrom a repl False (x # l) xs = replaceFrom b repl False (x # l) xs"
          by (intro ih) simp
        with Cons t False c2 assms show ?thesis
          by (simp add: replaceFrom.simps [of a repl afterMatch l "x # xs"]
              replaceFrom.simps [of b repl afterMatch l "x # xs"])
      qed
    qed
  qed
qed

lemma MatchString_cong:
  assumes "step a = step b"
  shows "regexp_MatchString a = regexp_MatchString b"
  using matchFrom_cong [OF assms] by (intro ext) (simp add: regexp_MatchString_def)

lemma ReplaceAllString_cong:
  assumes "step a = step b"
  shows "regexp_ReplaceAllString a = regexp_ReplaceAllString b"
  using replaceFrom_cong [OF assms] by (intro ext) (simp add: regexp_ReplaceAllString_def)

lemma compileAll_as:
  "list_all2 compiles_as srcs hands \<Longrightarrow>
     \<exists>res. compileAll srcs = Inr res \<and> (\<forall>s. anyMatch res s = anyMatch hands s)"
proof (induction srcs hands rule: list_all2_induct)
  case Nil
  then show ?case by simp
next
  case (Cons src srcs hand hands)
  from compiles_as_step [OF Cons.hyps(1)] obtain re where
    re: "regexp_MustCompile src = Inr re" "step re = step hand" by blast
  from Cons.IH obtain res where
    res: "compileAll srcs = Inr res" "\<forall>s. anyMatch res s = anyMatch hands s"
    by blast
  from re(2) have "regexp_MatchString re = regexp_MatchString hand" by (rule MatchString_cong)
  with res(2) have "\<forall>s. anyMatch (re # res) s = anyMatch (hand # hands) s" by simp
  with re(1) res(1) show ?case by simp
qed

section \<open>No panic\<close>

lemma run_NewLaTeXConverter_ok:
  "\<exists>conv. run_NewLaTeXConverter = Inr conv \<and>
     (\<forall>isDigit s. run_isMathExpression conv isDigit s = isMathExpression isDigit s)"
proof -
  from compileAll_as [OF c_math] obtain res where
    "compileAll mathPatternSources = Inr res" "\<forall>s. anyMatch res s = anyMatch mathPatterns s"
    by blast
  then show ?thesis
    by (simp add: run_NewLaTeXConverter_def run_isMathExpression_def isMathExpression_def)
qed

lemma run_isInlineMath_ok: "run_isInlineMath s = Inr (isInlineMath s)"
proof -
  from compileAll_as [OF c_inline] obtain res where
    "compileAll inlinePatternSources = Inr res" "\<forall>s. anyMatch res s = anyMatch inlinePatterns s"
    by blast
  then show ?thesis by (simp add: run_isInlineMath_def isInlineMath_def)
qed

lemma run_replaceFunctions_ok:
  "set order \<subseteq> set mathFunctions \<Longrightarrow>
     run_replaceFunctions order s = Inr (replaceFunctions order s)"
proof (induction order arbitrary: s)
  case Nil
  then show ?case by (simp add: replaceFunctions_def)
next
  case (Cons e order)
  obtain funcName latexCmd where e: "e = (funcName, latexCmd)" by (cases e) auto
  with Cons.prems c_functions have "compiles_as (functionSource funcName) (functionPattern funcName)"
    by auto
  from compiles_as_step [OF this] obtain re where
    re: "regexp_MustCompile (functionSource funcName) = Inr re"
      "step re = step (functionPattern funcName)" by blast
  from re(2) have "regexp_ReplaceAllString re = regexp_ReplaceAllString (functionPattern funcName)"
    by (rule ReplaceAllString_cong)
  with re(1) e Cons show ?case by (simp add: replaceFunctions_def)
qed

lemma run_processMathExpressions_ok:
  assumes "set order \<subseteq> set mathFunctions"
  shows "run_processMathExpressions order s = Inr (processMathExpressions order s)"
proof -
  from compiles_as_step [OF c_fraction] obtain fr where
    fr: "regexp_MustCompile fractionSource = Inr fr" "step fr = step fractionPattern" by blast
  from compiles_as_step [OF c_exponent] obtain ex where
    ex: "regexp_MustCompile exponentSource = Inr ex" "step ex = step exponentPattern" by blast
  from compiles_as_step [OF c_sqrt] obtain sq where
    sq: "regexp_MustCompile sqrtSource = Inr sq" "step sq = step sqrtPattern" by blast
  from compiles_as_step [OF c_integral] obtain ig where
    ig: "regexp_MustCompile integralSource = Inr ig" "step ig = step integralPattern" by blast
  note cong = ReplaceAllString_cong [OF fr(2)] ReplaceAllString_cong [OF ex(2)]
    ReplaceAllString_cong [OF sq(2)] ReplaceAllString_cong [OF ig(2)]
  show ?thesis
    by (simp add: run_processMathExpressions_def processMathExpressions_def
        run_replaceFunctions_ok [OF assms] fr(1) ex(1) sq(1) ig(1) cong)
qed

lemma run_convertLine_ok:
  assumes "\<forall>isDigit s. run_isMathExpression conv isDigit s = isMathExpression isDigit s"
    and "set funOrder \<subseteq> set mathFunctions"
  shows "run_convertLine conv isDigit escOrder funOrder line =
           Inr (convertLine isDigit escOrder funOrder line)"
  using assms(1)
  by (simp add: run_convertLine_def convertLine_def Let_def run_isInlineMath_ok
      run_processMathExpressions_ok [OF assms(2)])

lemma run_latexLines_ok:
  assumes "\<forall>isDigit s. run_isMathExpression conv isDigit s = isMathExpression isDigit s"
    and "map_orders orders"
  shows "run_latexLines conv isDigit orders k lines = Inr (latexLines isDigit orders k lines)"
proof (induction lines arbitrary: k)
  case Nil
  then show ?case by simp
next
  case (Cons raw lines)
  from assms(2) have "iteration_of mathFunctions (snd (orders k))"
    by (simp add: map_orders_def)
  then have "set (snd (orders k)) \<subseteq> set mathFunctions"
    by (simp add: iteration_set)
  from run_convertLine_ok [OF assms(1) this] Cons.IH show ?case
    by (simp add: Let_def)
qed

text \<open>
  C7. \<open>ConvertToLatex\<close> has no failure mode. The only operation of the conversion that
  can fail is \<open>regexp.MustCompile\<close>, which panics on a pattern that does not parse. For
  every text, every \<open>unicode.IsDigit\<close> and every order of the map loops, building the
  converter succeeds and the conversion, run with all its calls of \<open>MustCompile\<close>, ends
  without a panic and returns the string that \<open>ConvertToLatex\<close> computes from the
  compiled patterns. Every function involved is total: structural recursion, or
  recursion with a termination proof.
\<close>

theorem conversion_never_panics:
  assumes "map_orders orders"
  shows "\<exists>conv. run_NewLaTeXConverter = Inr conv \<and>
           run_ConvertToLatex conv isDigit orders src = Inr (ConvertToLatex isDigit orders src)"
proof -
  from run_NewLaTeXConverter_ok obtain conv where
    conv: "run_NewLaTeXConverter = Inr conv"
      "\<forall>isDigit s. run_isMathExpression conv isDigit s = isMathExpression isDigit s"
    by blast
  from run_latexLines_ok [OF conv(2) assms] have
    "run_ConvertToLatex conv isDigit orders src = Inr (ConvertToLatex isDigit orders src)"
    by (simp add: run_ConvertToLatex_def ConvertToLatex_def)
  with conv(1) show ?thesis by blast
qed

theorem conversion_never_panics_witness:
  "map_orders (\<lambda>k. (specialChars, mathFunctions)) \<and>
   (\<exists>conv. run_NewLaTeXConverter = Inr conv \<and>
      run_ConvertToLatex conv perl_d (\<lambda>k. (specialChars, mathFunctions)) sampleText =
        Inr (displayMath (str ''E = mc'' @
                          backslash # str ''textbackslash{}textasciicircum{}2'') @
             linefeed #
             displayMath (8747 # str '' from 0 to 1 x'' @
                          backslash # str ''textbackslash{}textasciicircum{}2 dx = '' @
                          backslash # str ''frac{1}{3}'') @
             linefeed #
             displayMath (backslash # str ''lim x'' @ [8594, 8734] @ str '' (1 + 1/x)'' @
                          backslash # str ''textbackslash{}textasciicircum{}x = e'')))"
proof -
  let ?o = "\<lambda>k::nat. (specialChars, mathFunctions)"
  have a: "map_orders ?o" by (simp add: map_orders_def iteration_of_def)
  have b: "ConvertToLatex perl_d ?o sampleText =
     displayMath (str ''E = mc'' @ backslash # str ''textbackslash{}textasciicircum{}2'') @
     linefeed #
     displayMath (8747 # str '' from 0 to 1 x'' @
                  backslash # str ''textbackslash{}textasciicircum{}2 dx = '' @
                  backslash # str ''frac{1}{3}'') @
     linefeed #
     displayMath (backslash # str ''lim x'' @ [8594, 8734] @ str '' (1 + 1/x)'' @
                  backslash # str ''textbackslash{}textasciicircum{}x = e'')"
    by code_simp
  from conversion_never_panics [OF a, of perl_d sampleText] a b show ?thesis by simp
qed

end
